theory Spec2Isabelle
  imports Complex_Main "HOL-Library.Product_Lexorder"
begin

section \<open>Loan accounting engine of \<open>app.py\<close>\<close>

text \<open>
  The development embeds the core of \<open>src/app.py\<close>: \<open>calculate_interest\<close>,
  the month advance of \<open>get_next_due_date\<close>, \<open>calculate_total_owed\<close>,
  \<open>process_payment\<close>, \<open>check_and_add_overdue_interest\<close> and
  \<open>update_loan_statuses\<close>, together with the three tables they read and write.

  Modelling decisions.
  \<^item> Money. Python floats are modelled as exact rationals, and \<open>round(x, 2)\<close> as
    rounding to the nearest hundredth with ties to the even hundredth (\<open>round2\<close>).
    Python rounds the binary double: the two agree on amounts in whole cents and on
    amounts that a double holds exactly (such as multiples of an eighth), and may differ
    by a cent on other amounts with a third decimal, which a double only approximates.
    Sums of doubles are modelled as exact sums.
  \<^item> Dates. A \<open>datetime.date\<close> is a record of year, month and day, compared
    lexicographically as Python does. ISO strings stored in the tables are represented
    by the dates they denote; an empty due date is \<open>None\<close>.
  \<^item> The store. The Supabase tables \<open>loans_new\<close>, \<open>loan_interest_history\<close> and
    \<open>payments_new\<close> are lists of rows. A request applies exactly the filters that
    the source sends; policies configured inside the database are not part of the
    source and are not modelled. A request may raise: the world carries a schedule
    \<open>faults\<close> with one entry per request still to come (\<open>True\<close>: that request raises
    and changes nothing); an empty schedule means that no request fails.
  \<^item> The session. \<open>st.session_state\<close> either has no \<open>auth_session\<close> key, holds
    \<open>None\<close> under it, or holds a signed-in user.
  \<^item> The clock. \<open>date.today()\<close> is the parameter \<open>today\<close>.
\<close>

subsection \<open>Money\<close>

definition round_half_even :: "rat \<Rightarrow> int" where
  "round_half_even x =
     (let f = \<lfloor>x\<rfloor>; r = x - of_int f
      in if r < 1 / 2 then f
         else if 1 / 2 < r then f + 1
         else if even f then f else f + 1)"

definition round2 :: "rat \<Rightarrow> rat" where
  "round2 x = of_int (round_half_even (x * 100)) / 100"

text \<open>\<open>round_money\<close> of the source: \<open>round(float(amount), 2)\<close>.\<close>

definition round_money :: "rat \<Rightarrow> rat" where
  "round_money amount = round2 amount"


definition INTEREST_RATE :: rat where
  "INTEREST_RATE = 2 / 5"

definition calculate_interest :: "rat \<Rightarrow> rat" where
  "calculate_interest princ = round2 (princ * INTEREST_RATE)"

subsection \<open>Dates\<close>

record date =
  year :: nat
  month :: nat
  day :: nat

definition date_key :: "date \<Rightarrow> nat \<times> nat \<times> nat" where
  "date_key d = (year d, month d, day d)"

text \<open>\<open>a < b\<close> on \<open>datetime.date\<close>.\<close>

definition date_less :: "date \<Rightarrow> date \<Rightarrow> bool" where
  "date_less a b = (date_key a < date_key b)"

definition is_leap :: "nat \<Rightarrow> bool" where
  "is_leap y = (y mod 4 = 0 \<and> (y mod 100 \<noteq> 0 \<or> y mod 400 = 0))"

text \<open>\<open>calendar.monthrange(y, m)[1]\<close>.\<close>

definition days_in_month :: "nat \<Rightarrow> nat \<Rightarrow> nat" where
  "days_in_month y m =
     (if m = 2 then (if is_leap y then 29 else 28)
      else if m = 4 \<or> m = 6 \<or> m = 9 \<or> m = 11 then 30 else 31)"

text \<open>\<open>datetime.MAXYEAR\<close>.\<close>

definition MAXYEAR :: nat where
  "MAXYEAR = 9999"

definition valid_date :: "date \<Rightarrow> bool" where
  "valid_date d =
     (1 \<le> year d \<and> year d \<le> MAXYEAR \<and> 1 \<le> month d \<and> month d \<le> 12 \<and>
      1 \<le> day d \<and> day d \<le> days_in_month (year d) (month d))"

text \<open>
  \<open>d + relativedelta(months=1)\<close> as \<open>dateutil\<close> computes it: the month is
  incremented, a month above 12 carries into the year, and the day is cut down to
  the length of the target month. A year above \<open>MAXYEAR\<close> is outside the range of
  \<open>datetime.date\<close> and raises; that is \<open>None\<close> here.
\<close>

definition add_month :: "date \<Rightarrow> date option" where
  "add_month d =
     (let m1 = month d + 1;
          y1 = (if 12 < m1 then year d + 1 else year d);
          m2 = (if 12 < m1 then m1 - 12 else m1)
      in if MAXYEAR < y1 then None
         else Some \<lparr>year = y1, month = m2, day = min (day d) (days_in_month y1 m2)\<rparr>)"

text \<open>\<open>get_next_due_date\<close>: \<open>None\<close> for an empty due date.\<close>

datatype exn = StoreError | AttributeError | ValueError

definition get_next_due_date :: "date option \<Rightarrow> exn + date option" where
  "get_next_due_date current_due_date_str =
     (case current_due_date_str of
        None \<Rightarrow> Inr None
      | Some current_due_date \<Rightarrow>
          (case add_month current_due_date of
             None \<Rightarrow> Inl ValueError
           | Some next_due_date \<Rightarrow> Inr (Some next_due_date)))"

subsection \<open>Tables\<close>

datatype loan_status = Paid | Partial | Overdue | Active

record loan =
  loan_id :: nat
  loan_user_id :: "nat option"
  current_principal :: rat
  current_due_date :: "date option"
  status :: loan_status

record interest_entry =
  ie_id :: nat
  ie_loan_id :: nat
  ie_user_id :: "nat option"
  due_date :: date
  interest_amount :: rat
  principal_at_time :: rat
  added_date :: date
  is_paid :: bool

record payment =
  pay_loan_id :: nat
  amount :: rat
  payment_date :: date
  applied_to_interest :: rat
  applied_to_principal :: rat
  remaining_amount :: rat
  pay_user_id :: "nat option"

record db =
  loans_new :: "loan list"
  loan_interest_history :: "interest_entry list"
  payments_new :: "payment list"

datatype session = NoKey | NoSession | SignedIn nat

record world =
  store :: db
  faults :: "bool list"
  auth_session :: session

type_synonym 'a io = "world \<Rightarrow> (exn + 'a) \<times> world"

definition return_io :: "'a \<Rightarrow> 'a io" where
  "return_io a w = (Inr a, w)"

definition bind_io :: "'a io \<Rightarrow> ('a \<Rightarrow> 'b io) \<Rightarrow> 'b io" where
  "bind_io m f w = (case m w of (Inl e, w') \<Rightarrow> (Inl e, w') | (Inr a, w') \<Rightarrow> f a w')"

text \<open>\<open>query.execute()\<close>: one request to the store.\<close>

definition execute :: "(db \<Rightarrow> 'a \<times> db) \<Rightarrow> 'a io" where
  "execute q w =
     (case faults w of
        [] \<Rightarrow> (case q (store w) of (a, s) \<Rightarrow> (Inr a, w\<lparr>store := s\<rparr>))
      | f # fs \<Rightarrow>
          if f then (Inl StoreError, w\<lparr>faults := fs\<rparr>)
          else (case q (store w) of (a, s) \<Rightarrow> (Inr a, w\<lparr>store := s, faults := fs\<rparr>)))"

definition select_loans :: "(loan \<Rightarrow> bool) \<Rightarrow> db \<Rightarrow> loan list \<times> db" where
  "select_loans P s = (filter P (loans_new s), s)"

definition update_loans :: "(loan \<Rightarrow> bool) \<Rightarrow> (loan \<Rightarrow> loan) \<Rightarrow> db \<Rightarrow> unit \<times> db" where
  "update_loans P f s =
     ((), s\<lparr>loans_new := map (\<lambda>r. if P r then f r else r) (loans_new s)\<rparr>)"

definition select_interest :: "(interest_entry \<Rightarrow> bool) \<Rightarrow> db \<Rightarrow> interest_entry list \<times> db" where
  "select_interest P s = (filter P (loan_interest_history s), s)"

text \<open>\<open>.order("due_date")\<close>: ascending by due date.\<close>

definition select_interest_ordered ::
  "(interest_entry \<Rightarrow> bool) \<Rightarrow> db \<Rightarrow> interest_entry list \<times> db" where
  "select_interest_ordered P s =
     (sort_key (\<lambda>r. date_key (due_date r)) (filter P (loan_interest_history s)), s)"

definition update_interest ::
  "(interest_entry \<Rightarrow> bool) \<Rightarrow> (interest_entry \<Rightarrow> interest_entry) \<Rightarrow> db \<Rightarrow> unit \<times> db" where
  "update_interest P f s =
     ((), s\<lparr>loan_interest_history :=
               map (\<lambda>r. if P r then f r else r) (loan_interest_history s)\<rparr>)"

text \<open>The store assigns the primary key of an inserted interest row.\<close>

definition next_id :: "nat list \<Rightarrow> nat" where
  "next_id ids = Suc (fold max ids 0)"

definition insert_interest :: "interest_entry \<Rightarrow> db \<Rightarrow> unit \<times> db" where
  "insert_interest row s =
     ((), s\<lparr>loan_interest_history :=
               loan_interest_history s @
               [row\<lparr>ie_id := next_id (map ie_id (loan_interest_history s))\<rparr>]\<rparr>)"

definition insert_payment :: "payment \<Rightarrow> db \<Rightarrow> unit \<times> db" where
  "insert_payment row s = ((), s\<lparr>payments_new := payments_new s @ [row]\<rparr>)"

subsection \<open>Session and scoped reads\<close>

text \<open>
  \<open>get_current_user_id\<close>: without the key the result is \<open>None\<close>; with the key
  holding \<open>None\<close> the attribute access raises.
\<close>

definition get_current_user_id :: "nat option io" where
  "get_current_user_id w =
     (case auth_session w of
        NoKey \<Rightarrow> (Inr None, w)
      | NoSession \<Rightarrow> (Inl AttributeError, w)
      | SignedIn u \<Rightarrow> (Inr (Some u), w))"

text \<open>
  \<open>get_table_data("loans_new", {"id": loan_id})\<close>: scoped to the caller; any
  exception is reported and becomes the empty list.
\<close>

definition get_table_data_loans :: "nat \<Rightarrow> world \<Rightarrow> loan list \<times> world" where
  "get_table_data_loans lid w =
     (case get_current_user_id w of
        (Inl e, w1) \<Rightarrow> ([], w1)
      | (Inr None, w1) \<Rightarrow> ([], w1)
      | (Inr (Some user_id), w1) \<Rightarrow>
          (case execute (select_loans (\<lambda>r. loan_user_id r = Some user_id \<and> loan_id r = lid)) w1 of
             (Inl e, w2) \<Rightarrow> ([], w2)
           | (Inr rows, w2) \<Rightarrow> (rows, w2)))"

subsection \<open>Total owed\<close>

text \<open>
  \<open>calculate_total_owed\<close> (the definition in force, the second one of the file):
  the loan is read through \<open>get_table_data\<close>, the unpaid interest by loan id alone.
  The result is \<open>(total_owed, current_principal, unpaid_interest)\<close>.
\<close>

definition calculate_total_owed :: "nat \<Rightarrow> world \<Rightarrow> (rat \<times> rat \<times> rat) \<times> world" where
  "calculate_total_owed lid w =
     (case get_table_data_loans lid w of
        ([], w1) \<Rightarrow> ((0, 0, 0), w1)
      | (loan # _, w1) \<Rightarrow>
          (case execute (select_interest (\<lambda>r. ie_loan_id r = lid \<and> \<not> is_paid r)) w1 of
             (Inl e, w2) \<Rightarrow> ((0, 0, 0), w2)
           | (Inr interest_data, w2) \<Rightarrow>
               (let unpaid_interest =
                      sum_list (map interest_amount
                                  (filter (\<lambda>item. 0 < interest_amount item) interest_data));
                    total_owed = round2 (current_principal loan + unpaid_interest)
                in ((total_owed, current_principal loan, unpaid_interest), w2))))"

subsection \<open>Payments\<close>

text \<open>
  The loop over the unpaid interest rows of \<open>process_payment\<close>. It returns
  \<open>(remaining_payment, applied_to_interest)\<close>.
\<close>

fun pay_interest ::
  "nat \<Rightarrow> interest_entry list \<Rightarrow> rat \<Rightarrow> rat \<Rightarrow> world \<Rightarrow> (exn + rat \<times> rat) \<times> world" where
  "pay_interest user_id [] remaining_payment applied w =
     (Inr (remaining_payment, applied), w)"
| "pay_interest user_id (entry # rest) remaining_payment applied w =
     (if remaining_payment \<le> 0 then (Inr (remaining_payment, applied), w)
      else if interest_amount entry \<le> remaining_payment then
        (case execute (update_interest
                 (\<lambda>r. ie_id r = ie_id entry \<and> ie_user_id r = Some user_id)
                 (\<lambda>r. r\<lparr>is_paid := True\<rparr>)) w of
           (Inl e, w1) \<Rightarrow> (Inl e, w1)
         | (Inr _, w1) \<Rightarrow>
             pay_interest user_id rest
               (round2 (remaining_payment - interest_amount entry))
               (applied + interest_amount entry) w1)
      else
        (case execute (update_interest
                 (\<lambda>r. ie_id r = ie_id entry \<and> ie_user_id r = Some user_id)
                 (\<lambda>r. r\<lparr>interest_amount :=
                            round2 (interest_amount entry - remaining_payment)\<rparr>)) w of
           (Inl e, w1) \<Rightarrow> (Inl e, w1)
         | (Inr _, w1) \<Rightarrow>
             pay_interest user_id rest 0 (applied + remaining_payment) w1))"

text \<open>
  \<open>str(e)\<close>. The text of a failed store request depends on the store and is a
  placeholder; the other two are the messages of Python.
\<close>

definition exn_text :: "exn \<Rightarrow> string" where
  "exn_text e =
     (case e of StoreError \<Rightarrow> ''store request failed''
      | AttributeError \<Rightarrow>
          CHR 0x27 # ''NoneType'' @ CHR 0x27 # '' object has no attribute '' @
          CHR 0x27 # ''user'' @ [CHR 0x27]
      | ValueError \<Rightarrow> ''year 10000 is out of range'')"

text \<open>The body of the \<open>try\<close> block of \<open>process_payment\<close>.\<close>

definition process_payment_try :: "nat \<Rightarrow> rat \<Rightarrow> date \<Rightarrow> (bool \<times> string) io" where
  "process_payment_try lid payment_amount pay_date =
     bind_io get_current_user_id (\<lambda>uid.
       case uid of
         None \<Rightarrow> return_io (False, ''User not authenticated'')
       | Some user_id \<Rightarrow>
     bind_io (execute (select_loans (\<lambda>r. loan_id r = lid \<and> loan_user_id r = Some user_id))) (\<lambda>loans.
       case loans of
         [] \<Rightarrow> return_io (False, ''Loan not found or access denied'')
       | loan # _ \<Rightarrow>
     bind_io (execute (select_interest_ordered
                (\<lambda>r. ie_loan_id r = lid \<and> ie_user_id r = Some user_id \<and>
                     \<not> is_paid r \<and> 0 < interest_amount r))) (\<lambda>interest_data.
     bind_io (pay_interest user_id interest_data (round2 payment_amount) 0) (\<lambda>(remaining_payment, applied).
     bind_io (if 0 < remaining_payment
              then execute (update_loans
                     (\<lambda>r. loan_id r = lid \<and> loan_user_id r = Some user_id)
                     (\<lambda>r. r\<lparr>current_principal :=
                                max (round2 (current_principal loan - remaining_payment)) 0\<rparr>))
              else return_io ()) (\<lambda>_.
     bind_io (execute (insert_payment
                \<lparr>pay_loan_id = lid, amount = payment_amount, payment_date = pay_date,
                 applied_to_interest = applied,
                 applied_to_principal = (if 0 < remaining_payment then remaining_payment else 0),
                 remaining_amount = remaining_payment,
                 pay_user_id = Some user_id\<rparr>)) (\<lambda>_.
     (\<lambda>w. case calculate_total_owed lid w of
            ((total_owed, _, _), w1) \<Rightarrow>
              bind_io (execute (update_loans
                         (\<lambda>r. loan_id r = lid \<and> loan_user_id r = Some user_id)
                         (\<lambda>r. r\<lparr>status := (if total_owed \<le> 0 then Paid else Active)\<rparr>)))
                (\<lambda>_. return_io (True, ''Payment processed successfully'')) w1)))))))"

definition process_payment :: "nat \<Rightarrow> rat \<Rightarrow> date \<Rightarrow> world \<Rightarrow> (bool \<times> string) \<times> world" where
  "process_payment lid payment_amount pay_date w =
     (case process_payment_try lid payment_amount pay_date w of
        (Inl e, w1) \<Rightarrow> ((False, ''Error processing payment: '' @ exn_text e), w1)
      | (Inr r, w1) \<Rightarrow> (r, w1))"

subsection \<open>Accrual\<close>

text \<open>
  The \<open>while today > current_due_date\<close> loop of
  \<open>check_and_add_overdue_interest\<close> for one loan: for every missed due date an
  interest row is inserted unless one exists for that loan and date, and the working
  date moves on by one month. The result is the final working date.
\<close>

function walk :: "date \<Rightarrow> nat \<Rightarrow> rat \<Rightarrow> date \<Rightarrow> world \<Rightarrow> (exn + date) \<times> world" where
  "walk today lid princ cur w =
     (if date_less cur today then
        (case execute (select_interest (\<lambda>r. ie_loan_id r = lid \<and> due_date r = cur)) w of
           (Inl e, w1) \<Rightarrow> (Inl e, w1)
         | (Inr existing_interest, w1) \<Rightarrow>
             (case (if existing_interest = []
                    then execute (insert_interest
                           \<lparr>ie_id = 0, ie_loan_id = lid, ie_user_id = None, due_date = cur,
                            interest_amount = calculate_interest princ,
                            principal_at_time = princ, added_date = today,
                            is_paid = False\<rparr>) w1
                    else (Inr (), w1)) of
                (Inl e, w2) \<Rightarrow> (Inl e, w2)
              | (Inr _, w2) \<Rightarrow>
                  (case add_month cur of
                     None \<Rightarrow> (Inl ValueError, w2)
                   | Some nxt \<Rightarrow> walk today lid princ nxt w2)))
      else (Inr cur, w))"
  by pat_completeness auto
termination
proof (relation "(\<lambda>(today, lid, princ, cur, w). Suc (year today) - year cur) <*mlex*>
                 measure (\<lambda>(today, lid, princ, cur, w). 12 - month cur)")
  show "wf ((\<lambda>(today, lid, princ, cur, w). Suc (year today) - year cur) <*mlex*>
            measure (\<lambda>(today, lid, princ, cur, w). 12 - month cur))"
    by (simp add: wf_mlex)
next
  fix today :: date and lid :: nat and princ :: rat and cur :: date and w :: world
    and x :: "(exn + interest_entry list) \<times> world" and a b ba
    and xa :: "(exn + unit) \<times> world" and ab bb bc x2
  assume lt: "date_less cur today" and nxt: "add_month cur = Some x2"
  have y: "year cur \<le> year today"
    using lt by (auto simp: date_less_def date_key_def)
  show "((today, lid, princ, x2, bb), (today, lid, princ, cur, w))
          \<in> (\<lambda>(today, lid, princ, cur, w). Suc (year today) - year cur) <*mlex*>
            measure (\<lambda>(today, lid, princ, cur, w). 12 - month cur)"
    using nxt y
    by (auto simp: add_month_def Let_def mlex_prod_def split: if_splits)
qed

text \<open>The \<open>for loan in loans_data.data\<close> loop of the accrual pass.\<close>

fun accrue_loans :: "date \<Rightarrow> loan list \<Rightarrow> world \<Rightarrow> (exn + unit) \<times> world" where
  "accrue_loans today [] w = (Inr (), w)"
| "accrue_loans today (loan # rest) w =
     (case current_due_date loan of
        None \<Rightarrow> accrue_loans today rest w
      | Some current_due_date_0 \<Rightarrow>
          (case walk today (loan_id loan) (current_principal loan) current_due_date_0 w of
             (Inl e, w1) \<Rightarrow> (Inl e, w1)
           | (Inr final_due_date, w1) \<Rightarrow>
               (case execute (update_loans (\<lambda>r. loan_id r = loan_id loan)
                        (\<lambda>r. r\<lparr>current_due_date := Some final_due_date,
                                 status := Overdue\<rparr>)) w1 of
                  (Inl e, w2) \<Rightarrow> (Inl e, w2)
                | (Inr _, w2) \<Rightarrow> accrue_loans today rest w2)))"

definition check_and_add_overdue_interest :: "date \<Rightarrow> world \<Rightarrow> bool \<times> world" where
  "check_and_add_overdue_interest today w =
     (case execute (select_loans (\<lambda>r. status r \<noteq> Paid)) w of
        (Inl e, w1) \<Rightarrow> (False, w1)
      | (Inr loans_data, w1) \<Rightarrow>
          (case accrue_loans today loans_data w1 of
             (Inl e, w2) \<Rightarrow> (False, w2)
           | (Inr _, w2) \<Rightarrow> (True, w2)))"

subsection \<open>Status refresh\<close>

text \<open>The status that \<open>update_loan_statuses\<close> derives for one loan row.\<close>

definition derive_status :: "date \<Rightarrow> rat \<Rightarrow> date option \<Rightarrow> loan_status" where
  "derive_status today total_owed current_due_date_str =
     (if total_owed \<le> 0 then Paid
      else (case current_due_date_str of
              Some due \<Rightarrow> if date_less due today then Overdue else Partial
            | None \<Rightarrow> Partial))"

text \<open>The \<open>for loan in loans_data.data\<close> loop of \<open>update_loan_statuses\<close>.\<close>

fun resolve_loans :: "date \<Rightarrow> loan list \<Rightarrow> world \<Rightarrow> (exn + unit) \<times> world" where
  "resolve_loans today [] w = (Inr (), w)"
| "resolve_loans today (loan # rest) w =
     (case calculate_total_owed (loan_id loan) w of
        ((total_owed, _, _), w1) \<Rightarrow>
          (case execute (update_loans (\<lambda>r. loan_id r = loan_id loan)
                   (\<lambda>r. r\<lparr>status := derive_status today total_owed (current_due_date loan)\<rparr>)) w1 of
             (Inl e, w2) \<Rightarrow> (Inl e, w2)
           | (Inr _, w2) \<Rightarrow> resolve_loans today rest w2))"

definition update_loan_statuses :: "date \<Rightarrow> world \<Rightarrow> bool \<times> world" where
  "update_loan_statuses today w =
     (case check_and_add_overdue_interest today w of
        (_, w0) \<Rightarrow>
          (case execute (select_loans (\<lambda>r. True)) w0 of
             (Inl e, w1) \<Rightarrow> (False, w1)
           | (Inr loans_data, w1) \<Rightarrow>
               (case resolve_loans today loans_data w1 of
                  (Inl e, w2) \<Rightarrow> (False, w2)
                | (Inr _, w2) \<Rightarrow> (True, w2))))"

subsection \<open>Properties and invariants\<close>

text \<open>An operation keeps a property of the world, whatever it returns.\<close>

definition preserves :: "(world \<Rightarrow> bool) \<Rightarrow> (world \<Rightarrow> 'r \<times> world) \<Rightarrow> bool" where
  "preserves P m = (\<forall>w. P w \<longrightarrow> P (snd (m w)))"

text \<open>The invariant \<open>current_principal \<ge> 0\<close> over the loan table.\<close>

definition principal_nonneg :: "world \<Rightarrow> bool" where
  "principal_nonneg w = (\<forall>r \<in> set (loans_new (store w)). 0 \<le> current_principal r)"

text \<open>
  The unpaid interest of a loan, in the words of the data model: the sum of
  \<open>interest_amount\<close> over the rows of the loan that are not paid and hold a
  positive amount.
\<close>

definition unpaid_interest :: "db \<Rightarrow> nat \<Rightarrow> rat" where
  "unpaid_interest s lid =
     sum_list (map interest_amount
       (filter (\<lambda>e. ie_loan_id e = lid \<and> \<not> is_paid e \<and> 0 < interest_amount e)
          (loan_interest_history s)))"

text \<open>
  \<open>n\<close> successive month advances, each from the date the previous one produced, as the
  accrual loop performs them.
\<close>

fun advance :: "nat \<Rightarrow> date \<Rightarrow> date option" where
  "advance 0 d = Some d"
| "advance (Suc n) d = (case add_month d of None \<Rightarrow> None | Some d' \<Rightarrow> advance n d')"

text \<open>The date with month number \<open>k\<close>, counted from January of year 0.\<close>

definition date_of_index :: "nat \<Rightarrow> nat \<Rightarrow> date" where
  "date_of_index k dd = \<lparr>year = k div 12, month = Suc (k mod 12), day = dd\<rparr>"

text \<open>
  The effect of an accrual pass on one loan row: a row whose id is in \<open>S\<close> has its
  due date moved to a date that is not before today and is marked \<open>Overdue\<close>; any other
  row is unchanged.
\<close>

definition accrued :: "date \<Rightarrow> nat set \<Rightarrow> loan \<Rightarrow> loan \<Rightarrow> bool" where
  "accrued today S r r' =
     (if loan_id r \<in> S
      then (\<exists>d. \<not> date_less d today \<and> r' = r\<lparr>current_due_date := Some d, status := Overdue\<rparr>)
      else r' = r)"

text \<open>
  A loan table on which the accrual pass has nothing left to do: every row that is not
  \<open>Paid\<close> and has a due date is due today or later and marked \<open>Overdue\<close>.
\<close>

definition settled :: "date \<Rightarrow> loan list \<Rightarrow> bool" where
  "settled today ls =
     (\<forall>r \<in> set ls. status r \<noteq> Paid \<longrightarrow>
        (case current_due_date r of
           None \<Rightarrow> True
         | Some d \<Rightarrow> \<not> date_less d today \<and> status r = Overdue))"

text \<open>The ids of the rows of a snapshot that have a due date.\<close>

definition due_ids :: "loan list \<Rightarrow> nat set" where
  "due_ids ls = loan_id ` {l \<in> set ls. current_due_date l \<noteq> None}"

text \<open>
  The total that \<open>calculate_total_owed\<close> returns to caller \<open>u\<close> when no request
  fails, and a loan row with the status that \<open>update_loan_statuses\<close> derives from it.
\<close>

definition total_owed_of :: "db \<Rightarrow> nat \<Rightarrow> nat \<Rightarrow> rat" where
  "total_owed_of s u lid =
     (case filter (\<lambda>r. loan_user_id r = Some u \<and> loan_id r = lid) (loans_new s) of
        [] \<Rightarrow> 0
      | loan # _ \<Rightarrow> round2 (current_principal loan + unpaid_interest s lid))"

definition resolved :: "date \<Rightarrow> db \<Rightarrow> nat \<Rightarrow> loan \<Rightarrow> loan" where
  "resolved today s u r =
     r\<lparr>status := derive_status today (total_owed_of s u (loan_id r)) (current_due_date r)\<rparr>"

subsection \<open>Example states\<close>

definition example_day :: date where
  "example_day = \<lparr>year = 2024, month = 6, day = 1\<rparr>"

definition example_loan :: loan where
  "example_loan =
     \<lparr>loan_id = 1, loan_user_id = Some 7, current_principal = 500,
      current_due_date = Some \<lparr>year = 2024, month = 6, day = 30\<rparr>, status = Partial\<rparr>"

text \<open>One loan of user 7, no interest rows, user 7 signed in, no failing request.\<close>

definition example_world :: world where
  "example_world =
     \<lparr>store = \<lparr>loans_new = [example_loan], loan_interest_history = [], payments_new = []\<rparr>,
      faults = [], auth_session = SignedIn 7\<rparr>"

text \<open>
  Two owners with one overdue loan each, and the interest row created with each loan;
  owner 1 is signed in.
\<close>

definition two_owner_world :: world where
  "two_owner_world =
     \<lparr>store =
        \<lparr>loans_new =
           [\<lparr>loan_id = 1, loan_user_id = Some 1, current_principal = 500,
             current_due_date = Some \<lparr>year = 2024, month = 2, day = 10\<rparr>, status = Partial\<rparr>,
            \<lparr>loan_id = 2, loan_user_id = Some 2, current_principal = 300,
             current_due_date = Some \<lparr>year = 2024, month = 2, day = 10\<rparr>, status = Partial\<rparr>],
         loan_interest_history =
           [\<lparr>ie_id = 1, ie_loan_id = 1, ie_user_id = Some 1,
             due_date = \<lparr>year = 2024, month = 2, day = 10\<rparr>, interest_amount = 200,
             principal_at_time = 500, added_date = \<lparr>year = 2024, month = 1, day = 10\<rparr>,
             is_paid = False\<rparr>,
            \<lparr>ie_id = 2, ie_loan_id = 2, ie_user_id = Some 2,
             due_date = \<lparr>year = 2024, month = 2, day = 10\<rparr>, interest_amount = 120,
             principal_at_time = 300, added_date = \<lparr>year = 2024, month = 1, day = 10\<rparr>,
             is_paid = False\<rparr>],
         payments_new = []\<rparr>,
      faults = [], auth_session = SignedIn 1\<rparr>"

definition march_15 :: date where
  "march_15 = \<lparr>year = 2024, month = 3, day = 15\<rparr>"




text \<open>
  A loan of 500 of user 1 that is stored as \<open>Paid\<close> although it still owes, due on
  10 February 2024; user 1 is signed in.
\<close>

definition paid_owing_world :: world where
  "paid_owing_world =
     \<lparr>store =
        \<lparr>loans_new =
           [\<lparr>loan_id = 1, loan_user_id = Some 1, current_principal = 500,
             current_due_date = Some \<lparr>year = 2024, month = 2, day = 10\<rparr>, status = Paid\<rparr>],
         loan_interest_history = [], payments_new = []\<rparr>,
      faults = [], auth_session = SignedIn 1\<rparr>"

text \<open>The columns of a loan row that neither the accrual pass nor the refresh writes.\<close>

definition loan_key :: "loan \<Rightarrow> nat \<times> nat option \<times> rat" where
  "loan_key r = (loan_id r, loan_user_id r, current_principal r)"

text \<open>
  A loan of 500 of user 1 due on 31 January 2023 with the interest row created with it;
  user 1 is signed in.
\<close>

definition april_15 :: date where
  "april_15 = \<lparr>year = 2023, month = 4, day = 15\<rparr>"

definition month_end_world :: world where
  "month_end_world =
     \<lparr>store =
        \<lparr>loans_new =
           [\<lparr>loan_id = 1, loan_user_id = Some 1, current_principal = 500,
             current_due_date = Some \<lparr>year = 2023, month = 1, day = 31\<rparr>, status = Partial\<rparr>],
         loan_interest_history =
           [\<lparr>ie_id = 1, ie_loan_id = 1, ie_user_id = Some 1,
             due_date = \<lparr>year = 2023, month = 1, day = 31\<rparr>, interest_amount = 200,
             principal_at_time = 500, added_date = \<lparr>year = 2022, month = 12, day = 31\<rparr>,
             is_paid = False\<rparr>],
         payments_new = []\<rparr>,
      faults = [], auth_session = SignedIn 1\<rparr>"


text \<open>
  A loan of user 1 that owes 500 and the interest of February 2024, and a loan of user 1
  that is paid off and stored as \<open>Paid\<close>; user 1 is signed in.
\<close>

definition paid_off_world :: world where
  "paid_off_world =
     \<lparr>store =
        \<lparr>loans_new =
           [\<lparr>loan_id = 1, loan_user_id = Some 1, current_principal = 500,
             current_due_date = Some \<lparr>year = 2024, month = 2, day = 10\<rparr>, status = Partial\<rparr>,
            \<lparr>loan_id = 3, loan_user_id = Some 1, current_principal = 0,
             current_due_date = Some \<lparr>year = 2023, month = 12, day = 10\<rparr>, status = Paid\<rparr>],
         loan_interest_history =
           [\<lparr>ie_id = 1, ie_loan_id = 3, ie_user_id = Some 1,
             due_date = \<lparr>year = 2023, month = 12, day = 10\<rparr>, interest_amount = 80,
             principal_at_time = 200, added_date = \<lparr>year = 2023, month = 11, day = 10\<rparr>,
             is_paid = True\<rparr>,
            \<lparr>ie_id = 2, ie_loan_id = 1, ie_user_id = Some 1,
             due_date = \<lparr>year = 2024, month = 2, day = 10\<rparr>, interest_amount = 200,
             principal_at_time = 500, added_date = \<lparr>year = 2024, month = 1, day = 10\<rparr>,
             is_paid = False\<rparr>],
         payments_new = []\<rparr>,
      faults = [], auth_session = SignedIn 1\<rparr>"
section \<open>Lemmas\<close>

subsection \<open>Preservation rules\<close>

lemma preservesI: "(\<And>w. P w \<Longrightarrow> P (snd (m w))) \<Longrightarrow> preserves P m"
  by (simp add: preserves_def)

lemma preservesD: "preserves P m \<Longrightarrow> P w \<Longrightarrow> P (snd (m w))"
  by (simp add: preserves_def)

lemma preserves_return: "preserves P (return_io a)"
  by (simp add: preserves_def return_io_def)

lemma preserves_bind:
  assumes "preserves P m" and "\<And>a. preserves P (f a)"
  shows "preserves P (bind_io m f)"
proof (rule preservesI)
  fix w assume P: "P w"
  obtain r w1 where m: "m w = (r, w1)" by (cases "m w")
  with assms(1) P have P1: "P w1" by (auto dest: preservesD)
  show "P (snd (bind_io m f w))"
  proof (cases r)
    case (Inl e)
    with m P1 show ?thesis by (simp add: bind_io_def)
  next
    case (Inr a)
    with m have "bind_io m f w = f a w1" by (simp add: bind_io_def)
    with assms(2)[of a] P1 show ?thesis by (auto dest: preservesD)
  qed
qed

lemma preserves_execute:
  assumes fl: "\<And>w. P w \<Longrightarrow> P (w\<lparr>faults := tl (faults w)\<rparr>)"
    and st: "\<And>w. P w \<Longrightarrow> P (w\<lparr>store := snd (q (store w))\<rparr>)"
  shows "preserves P (execute q)"
proof (rule preservesI)
  fix w assume P: "P w"
  show "P (snd (execute q w))"
  proof (cases "faults w")
    case Nil
    then show ?thesis using st[OF P] by (auto simp: execute_def split: prod.splits)
  next
    case (Cons f fs)
    have "P (w\<lparr>store := snd (q (store w))\<rparr>\<lparr>faults := tl (faults w)\<rparr>)"
      using fl[OF st[OF P]] by simp
    then show ?thesis using Cons fl[OF P] by (auto simp: execute_def split: prod.splits)
  qed
qed

lemma preserves_select_loans:
  assumes "\<And>w. P w \<Longrightarrow> P (w\<lparr>faults := tl (faults w)\<rparr>)"
  shows "preserves P (execute (select_loans Q))"
  using assms by (intro preserves_execute) (simp_all add: select_loans_def)

lemma preserves_select_interest:
  assumes "\<And>w. P w \<Longrightarrow> P (w\<lparr>faults := tl (faults w)\<rparr>)"
  shows "preserves P (execute (select_interest Q))"
  using assms by (intro preserves_execute) (simp_all add: select_interest_def)

lemma preserves_select_interest_ordered:
  assumes "\<And>w. P w \<Longrightarrow> P (w\<lparr>faults := tl (faults w)\<rparr>)"
  shows "preserves P (execute (select_interest_ordered Q))"
  using assms by (intro preserves_execute) (simp_all add: select_interest_ordered_def)

lemma preserves_get_current_user_id: "preserves P get_current_user_id"
  by (rule preservesI) (simp add: get_current_user_id_def split: session.splits)

lemma pay_interest_Cons:
  "pay_interest user_id (entry # rest) remaining_payment applied =
     (if remaining_payment \<le> 0 then return_io (remaining_payment, applied)
      else if interest_amount entry \<le> remaining_payment then
        bind_io (execute (update_interest
                 (\<lambda>r. ie_id r = ie_id entry \<and> ie_user_id r = Some user_id)
                 (\<lambda>r. r\<lparr>is_paid := True\<rparr>)))
          (\<lambda>_. pay_interest user_id rest
               (round2 (remaining_payment - interest_amount entry))
               (applied + interest_amount entry))
      else
        bind_io (execute (update_interest
                 (\<lambda>r. ie_id r = ie_id entry \<and> ie_user_id r = Some user_id)
                 (\<lambda>r. r\<lparr>interest_amount :=
                            round2 (interest_amount entry - remaining_payment)\<rparr>)))
          (\<lambda>_. pay_interest user_id rest 0 (applied + remaining_payment)))"
  by (rule ext) (simp add: bind_io_def return_io_def)

lemma pay_interest_Nil: "pay_interest user_id [] remaining_payment applied = return_io (remaining_payment, applied)"
  by (rule ext) (simp add: return_io_def)

lemma preserves_pay_interest:
  assumes fl: "\<And>w. P w \<Longrightarrow> P (w\<lparr>faults := tl (faults w)\<rparr>)"
    and upd: "\<And>w Q f. P w \<Longrightarrow> P (w\<lparr>store := snd (update_interest Q f (store w))\<rparr>)"
  shows "preserves P (pay_interest user_id entries remaining_payment applied)"
proof (induction entries arbitrary: remaining_payment applied)
  case Nil
  show ?case by (simp add: pay_interest_Nil preserves_return)
next
  case (Cons entry rest)
  show ?case
    unfolding pay_interest_Cons
    by (auto intro!: preserves_return preserves_bind preserves_execute Cons.IH fl upd)
qed

lemma preserves_get_table_data_loans:
  assumes fl: "\<And>w. P w \<Longrightarrow> P (w\<lparr>faults := tl (faults w)\<rparr>)"
  shows "preserves P (get_table_data_loans lid)"
proof (rule preservesI)
  fix w assume P: "P w"
  show "P (snd (get_table_data_loans lid w))"
  proof (cases "auth_session w")
    case (SignedIn u)
    let ?q = "select_loans (\<lambda>r. loan_user_id r = Some u \<and> loan_id r = lid)"
    have "P (snd (execute ?q w))"
      using preserves_select_loans[of P, OF fl] P by (auto dest: preservesD)
    then show ?thesis
      using SignedIn
      by (cases "execute ?q w")
         (auto simp: get_table_data_loans_def get_current_user_id_def split: sum.splits)
  qed (use P in \<open>simp_all add: get_table_data_loans_def get_current_user_id_def\<close>)
qed

lemma store_get_table_data_loans [simp]:
  "store (snd (get_table_data_loans lid w)) = store w"
  by (auto simp: get_table_data_loans_def get_current_user_id_def execute_def select_loans_def
           split: session.splits sum.splits list.splits prod.splits)

lemma preserves_calculate_total_owed:
  assumes fl: "\<And>w. P w \<Longrightarrow> P (w\<lparr>faults := tl (faults w)\<rparr>)"
  shows "preserves P (calculate_total_owed lid)"
proof (rule preservesI)
  fix w assume P: "P w"
  obtain rows w1 where g: "get_table_data_loans lid w = (rows, w1)"
    by (cases "get_table_data_loans lid w")
  have P1: "P w1"
    using preserves_get_table_data_loans[of P lid, OF fl] P g by (auto dest: preservesD)
  let ?q = "select_interest (\<lambda>r. ie_loan_id r = lid \<and> \<not> is_paid r)"
  have P2: "P (snd (execute ?q w1))"
    using preserves_select_interest[of P, OF fl] P1 by (auto dest: preservesD)
  show "P (snd (calculate_total_owed lid w))"
    using g P1 P2
    by (cases "execute ?q w1")
       (auto simp: calculate_total_owed_def Let_def split: list.splits sum.splits)
qed

lemma principal_nonneg_faults [simp]:
  "principal_nonneg (w\<lparr>faults := fs\<rparr>) = principal_nonneg w"
  by (simp add: principal_nonneg_def)

lemma preserves_total_then:
  assumes "preserves P (calculate_total_owed lid)" and "\<And>t. preserves P (k t)"
  shows "preserves P (\<lambda>w. case calculate_total_owed lid w of ((t, _, _), w1) \<Rightarrow> k t w1)"
proof (rule preservesI)
  fix w assume P: "P w"
  obtain t a b w1 where c: "calculate_total_owed lid w = ((t, a, b), w1)"
    by (metis prod.exhaust)
  with assms(1) P have "P w1" by (auto dest: preservesD)
  with assms(2)[of t] c show "P (snd (case calculate_total_owed lid w of ((t, _, _), w1) \<Rightarrow> k t w1))"
    by (auto dest: preservesD)
qed

lemma preserves_principal_nonneg_execute:
  assumes "\<And>s. (\<forall>r \<in> set (loans_new s). 0 \<le> current_principal r) \<Longrightarrow>
                (\<forall>r \<in> set (loans_new (snd (q s))). 0 \<le> current_principal r)"
  shows "preserves principal_nonneg (execute q)"
  using assms by (intro preserves_execute) (simp_all add: principal_nonneg_def)

lemma preserves_process_payment_try:
  "preserves principal_nonneg (process_payment_try lid payment_amount pay_date)"
proof -
  have sel: "preserves principal_nonneg (execute (select_loans Q))" for Q
    by (rule preserves_principal_nonneg_execute) (simp add: select_loans_def)
  have sel_i: "preserves principal_nonneg (execute (select_interest_ordered Q))" for Q
    by (rule preserves_principal_nonneg_execute) (simp add: select_interest_ordered_def)
  have pay: "preserves principal_nonneg (pay_interest u es r a)" for u es r a
    by (rule preserves_pay_interest) (simp_all add: principal_nonneg_def update_interest_def)
  have upd_p: "preserves principal_nonneg
      (execute (update_loans Q (\<lambda>r. r\<lparr>current_principal := max x 0\<rparr>)))" for Q x
    by (rule preserves_principal_nonneg_execute) (auto simp: update_loans_def)
  have upd_s: "preserves principal_nonneg
      (execute (update_loans Q (\<lambda>r. r\<lparr>status := x\<rparr>)))" for Q x
    by (rule preserves_principal_nonneg_execute) (auto simp: update_loans_def)
  have ins: "preserves principal_nonneg (execute (insert_payment row))" for row
    by (rule preserves_principal_nonneg_execute) (simp add: insert_payment_def)
  have tot: "preserves principal_nonneg (calculate_total_owed lid)"
    by (rule preserves_calculate_total_owed) simp
  show ?thesis
    unfolding process_payment_try_def
    by (auto intro!: preserves_bind preserves_return preserves_get_current_user_id
          preserves_total_then sel sel_i pay upd_p upd_s ins tot
        split: option.splits list.splits prod.splits)
qed

subsection \<open>Runs without failing requests\<close>

lemma execute_nofault:
  "faults w = [] \<Longrightarrow> execute q w = (Inr (fst (q (store w))), w\<lparr>store := snd (q (store w))\<rparr>)"
  by (simp add: execute_def split: prod.splits)

lemma get_table_data_loans_nofault:
  "faults w = [] \<Longrightarrow> auth_session w = SignedIn u \<Longrightarrow>
   get_table_data_loans lid w =
     (filter (\<lambda>r. loan_user_id r = Some u \<and> loan_id r = lid) (loans_new (store w)), w)"
  by (simp add: get_table_data_loans_def get_current_user_id_def execute_nofault select_loans_def)

lemma calculate_total_owed_nofault:
  "faults w = [] \<Longrightarrow> auth_session w = SignedIn u \<Longrightarrow>
   calculate_total_owed lid w =
     ((case filter (\<lambda>r. loan_user_id r = Some u \<and> loan_id r = lid) (loans_new (store w)) of
         [] \<Rightarrow> (0, 0, 0)
       | loan # _ \<Rightarrow>
           (round2 (current_principal loan + unpaid_interest (store w) lid),
            current_principal loan, unpaid_interest (store w) lid)), w)"
  by (simp add: calculate_total_owed_def get_table_data_loans_nofault execute_nofault
        select_interest_def unpaid_interest_def Let_def conj_commute conj_left_commute split: list.splits)

lemma pay_interest_nofault:
  "faults w = [] \<Longrightarrow>
   \<exists>rem app s. pay_interest u es r a w = (Inr (rem, app), w\<lparr>store := s\<rparr>) \<and>
       loans_new s = loans_new (store w)"
proof (induction es arbitrary: r a w)
  case Nil
  have "w = w\<lparr>store := store w\<rparr>" by simp
  then show ?case by (metis pay_interest.simps(1))
next
  case (Cons e es)
  show ?case
  proof (cases "r \<le> 0")
    case True
    have "w = w\<lparr>store := store w\<rparr>" by simp
    with True show ?thesis by (metis pay_interest.simps(2))
  next
    case False
    define f :: "interest_entry \<Rightarrow> interest_entry"
      where "f = (if interest_amount e \<le> r then (\<lambda>x. x\<lparr>is_paid := True\<rparr>)
       else (\<lambda>x. x\<lparr>interest_amount := round2 (interest_amount e - r)\<rparr>))"
    define w1 where "w1 = w\<lparr>store := snd (update_interest
        (\<lambda>x. ie_id x = ie_id e \<and> ie_user_id x = Some u) f (store w))\<rparr>"
    have f1: "faults w1 = []" using Cons.prems by (simp add: w1_def)
    have l1: "loans_new (store w1) = loans_new (store w)"
      by (simp add: w1_def update_interest_def)
    define r' a' where "r' = (if interest_amount e \<le> r then round2 (r - interest_amount e) else 0)"
      and "a' = (if interest_amount e \<le> r then a + interest_amount e else a + r)"
    have step: "pay_interest u (e # es) r a w = pay_interest u es r' a' w1"
      using False Cons.prems
      by (simp add: execute_nofault w1_def f_def r'_def a'_def)
    from Cons.IH[OF f1, of r' a'] obtain rem app s where
      "pay_interest u es r' a' w1 = (Inr (rem, app), w1\<lparr>store := s\<rparr>)"
      "loans_new s = loans_new (store w1)" by blast
    then show ?thesis using step l1 by (auto simp: w1_def)
  qed
qed

lemma filter_status_update:
  assumes "\<And>r x. Q (r\<lparr>status := x\<rparr>) = Q r"
  shows "filter Q (map (\<lambda>r. if P r then r\<lparr>status := x\<rparr> else r) xs) =
         map (\<lambda>r. if P r then r\<lparr>status := x\<rparr> else r) (filter Q xs)"
  by (induction xs) (auto simp: assms)

lemma total_owed_status_update:
  assumes "faults w = []" "auth_session w = SignedIn u"
  shows "fst (calculate_total_owed lid
            (w\<lparr>store := snd (update_loans P (\<lambda>r. r\<lparr>status := x\<rparr>) (store w))\<rparr>)) =
         fst (calculate_total_owed lid w)"
  using assms
  by (simp add: calculate_total_owed_nofault update_loans_def filter_status_update
        unpaid_interest_def split: list.splits)

lemma bind_execute_nofault:
  "faults w = [] \<Longrightarrow>
   bind_io (execute q) k w = k (fst (q (store w))) (w\<lparr>store := snd (q (store w))\<rparr>)"
  by (simp add: bind_io_def execute_nofault)

lemma bind_select_loans_nofault:
  "faults w = [] \<Longrightarrow>
   bind_io (execute (select_loans Q)) k w = k (filter Q (loans_new (store w))) w"
  by (simp add: bind_execute_nofault select_loans_def)

lemma bind_select_interest_ordered_nofault:
  "faults w = [] \<Longrightarrow>
   bind_io (execute (select_interest_ordered Q)) k w =
     k (sort_key (\<lambda>r. date_key (due_date r)) (filter Q (loan_interest_history (store w)))) w"
  by (simp add: bind_execute_nofault select_interest_ordered_def)

lemma bind_io_result: "m w = (Inr a, w') \<Longrightarrow> bind_io m k w = k a w'"
  by (simp add: bind_io_def)

lemma bind_user_signed_in:
  "auth_session w = SignedIn u \<Longrightarrow> bind_io get_current_user_id k w = k (Some u) w"
  by (simp add: bind_io_def get_current_user_id_def)

lemma calculate_total_owed_snd_nofault:
  "faults w = [] \<Longrightarrow> snd (calculate_total_owed lid w) = w"
  by (cases "auth_session w")
     (simp_all add: calculate_total_owed_def get_table_data_loans_def get_current_user_id_def
        execute_nofault select_loans_def select_interest_def Let_def split: list.splits)

lemma status_step_nofault:
  assumes "faults w = []"
  shows "(case calculate_total_owed lid w of
            ((total_owed, _, _), w1) \<Rightarrow>
              bind_io (execute (update_loans P (\<lambda>r. r\<lparr>status := g total_owed\<rparr>)))
                (\<lambda>_. return_io res) w1) =
         (Inr res, w\<lparr>store := snd (update_loans P
             (\<lambda>r. r\<lparr>status := g (fst (fst (calculate_total_owed lid w)))\<rparr>) (store w))\<rparr>)"
proof -
  obtain t a b w1 where c: "calculate_total_owed lid w = ((t, a, b), w1)"
    by (metis prod.exhaust)
  with calculate_total_owed_snd_nofault[OF assms, of lid] have "w1 = w" by simp
  with c assms show ?thesis
    by (simp add: bind_io_def return_io_def execute_nofault)
qed

subsection \<open>Month advance\<close>

lemma days_in_month_ge_28: "28 \<le> days_in_month y m"
  by (simp add: days_in_month_def)

lemma add_month_day_le: "add_month d = Some d' \<Longrightarrow> day d' \<le> day d"
  by (auto simp: add_month_def Let_def split: if_splits)

lemma advance_day_le: "advance n d = Some d' \<Longrightarrow> day d' \<le> day d"
proof (induction n arbitrary: d)
  case 0
  then show ?case by simp
next
  case (Suc n)
  then obtain d1 where a: "add_month d = Some d1" and b: "advance n d1 = Some d'"
    by (auto split: option.splits)
  from Suc.IH[OF b] add_month_day_le[OF a] show ?case by simp
qed

lemma add_month_valid:
  assumes "valid_date d" "year d < MAXYEAR"
  shows "\<exists>d'. add_month d = Some d' \<and> valid_date d' \<and>
        (year d', month d') = (if month d = 12 then (year d + 1, 1) else (year d, month d + 1)) \<and>
        day d' = min (day d) (days_in_month (year d') (month d'))"
proof (cases "month d = 12")
  case True
  have "28 \<le> days_in_month (year d + 1) 1" by (rule days_in_month_ge_28)
  then show ?thesis
    using assms True by (simp add: add_month_def valid_date_def Let_def)
next
  case False
  have "28 \<le> days_in_month (year d) (month d + 1)" by (rule days_in_month_ge_28)
  then show ?thesis
    using assms False by (simp add: add_month_def valid_date_def Let_def)
qed

lemma index_step_carry:
  "k mod 12 = 11 \<Longrightarrow> Suc k div 12 = Suc (k div 12) \<and> Suc k mod 12 = (0::nat)"
  by (simp add: mod_Suc div_Suc)

lemma index_step_plain:
  "k mod 12 \<noteq> 11 \<Longrightarrow> Suc k div 12 = k div 12 \<and> Suc k mod 12 = Suc (k mod 12)"
  by (simp add: mod_Suc div_Suc)

lemma add_month_index:
  assumes dd: "dd \<le> 28" and y: "Suc k div 12 \<le> MAXYEAR"
  shows "add_month (date_of_index k dd) = Some (date_of_index (Suc k) dd)"
proof -
  have min1: "min dd (days_in_month yy mm) = dd" for yy mm
    using dd days_in_month_ge_28[of yy mm] by simp
  show ?thesis
  proof (cases "k mod 12 = 11")
    case True
    from index_step_carry[OF True] y have "\<not> MAXYEAR < Suc (k div 12)" by simp
    with True index_step_carry[OF True] show ?thesis
      by (simp add: add_month_def date_of_index_def Let_def min1)
  next
    case False
    have "k mod 12 < 12" by simp
    with False have lt: "k mod 12 < 11" by linarith
    from index_step_plain[OF False] y have "\<not> MAXYEAR < k div 12" by simp
    with lt index_step_plain[OF False] show ?thesis
      by (simp add: add_month_def date_of_index_def Let_def min1)
  qed
qed

lemma advance_index:
  "dd \<le> 28 \<Longrightarrow> (k + n) div 12 \<le> MAXYEAR \<Longrightarrow>
   advance n (date_of_index k dd) = Some (date_of_index (k + n) dd)"
proof (induction n arbitrary: k)
  case 0
  then show ?case by simp
next
  case (Suc n)
  have "Suc k div 12 \<le> (k + Suc n) div 12" by (rule div_le_mono) simp
  from this Suc.prems(2) have "Suc k div 12 \<le> MAXYEAR" by (rule order_trans)
  from add_month_index[OF Suc.prems(1) this]
  have "advance (Suc n) (date_of_index k dd) = advance n (date_of_index (Suc k) dd)" by simp
  also have "\<dots> = Some (date_of_index (Suc k + n) dd)"
    using Suc.prems by (intro Suc.IH) simp_all
  finally show ?case by simp
qed

lemma date_of_index_self:
  assumes "1 \<le> month d" "month d \<le> 12"
  shows "date_of_index (year d * 12 + (month d - 1)) (day d) = d"
proof -
  obtain m' where m: "month d = Suc m'" using assms(1) by (cases "month d") auto
  with assms(2) have "m' < 12" by simp
  then have "(year d * 12 + m') div 12 = year d" "(year d * 12 + m') mod 12 = m'" by simp_all
  then show ?thesis by (simp add: date_of_index_def m)
qed

lemma advance_12_small_day:
  assumes v: "valid_date d" and y: "year d < MAXYEAR" and s: "day d \<le> 28"
  shows "advance 12 d = Some (d\<lparr>year := year d + 1\<rparr>)"
proof -
  define k where "k = year d * 12 + (month d - 1)"
  have m: "1 \<le> month d" "month d \<le> 12" using v by (auto simp: valid_date_def)
  have self: "date_of_index k (day d) = d" unfolding k_def by (rule date_of_index_self[OF m])
  then have kd: "k div 12 = year d" "Suc (k mod 12) = month d"
    by (auto simp: date_of_index_def dest: arg_cong[where f = year] arg_cong[where f = month])
  have e: "(k + 12) div 12 = Suc (k div 12)" "(k + 12) mod 12 = k mod 12" by simp_all
  have "(k + 12) div 12 \<le> MAXYEAR" using e(1) kd(1) y by simp
  from advance_index[OF s this] have "advance 12 d = Some (date_of_index (k + 12) (day d))"
    by (simp add: self)
  also have "date_of_index (k + 12) (day d) = d\<lparr>year := year d + 1\<rparr>"
    by (simp add: date_of_index_def e kd)
  finally show ?thesis .
qed

subsection \<open>A payment without failing requests\<close>

lemma process_payment_run:
  assumes nf: "faults w = []" and au: "auth_session w = SignedIn u"
    and sel: "filter (\<lambda>r. loan_id r = lid \<and> loan_user_id r = Some u) (loans_new (store w)) =
              loan # rest"
    and pay: "pay_interest u
       (sort_key (\<lambda>r. date_key (due_date r))
         (filter (\<lambda>r. ie_loan_id r = lid \<and> ie_user_id r = Some u \<and> \<not> is_paid r \<and>
                      0 < interest_amount r)
            (loan_interest_history (store w))))
       (round2 payment_amount) 0 w = (Inr (rem, app), w\<lparr>store := s1\<rparr>)"
  shows "process_payment lid payment_amount pay_date w =
     (let P = (\<lambda>r. loan_id r = lid \<and> loan_user_id r = Some u);
          s2 = (if 0 < rem
                then snd (update_loans P
                       (\<lambda>r. r\<lparr>current_principal :=
                                max (round2 (current_principal loan - rem)) 0\<rparr>) s1)
                else s1);
          w3 = w\<lparr>store := snd (insert_payment
                 \<lparr>pay_loan_id = lid, amount = payment_amount, payment_date = pay_date,
                  applied_to_interest = app,
                  applied_to_principal = (if 0 < rem then rem else 0),
                  remaining_amount = rem, pay_user_id = Some u\<rparr> s2)\<rparr>;
          t = fst (fst (calculate_total_owed lid w3))
      in ((True, ''Payment processed successfully''),
          w3\<lparr>store := snd (update_loans P
             (\<lambda>r. r\<lparr>status := (if t \<le> 0 then Paid else Active)\<rparr>) (store w3))\<rparr>))"
proof -
  let ?P = "\<lambda>r. loan_id r = lid \<and> loan_user_id r = Some u"
  define entries where "entries = sort_key (\<lambda>r. date_key (due_date r))
       (filter (\<lambda>r. ie_loan_id r = lid \<and> ie_user_id r = Some u \<and> \<not> is_paid r \<and> 0 < interest_amount r)
          (loan_interest_history (store w)))"
  note pay' = pay[folded entries_def]
  define s2 where "s2 = (if 0 < rem
     then snd (update_loans ?P (\<lambda>r. r\<lparr>current_principal := max (round2 (current_principal loan - rem)) 0\<rparr>) s1)
     else s1)"
  define row where "row = \<lparr>pay_loan_id = lid, amount = payment_amount, payment_date = pay_date,
                 applied_to_interest = app,
                 applied_to_principal = (if 0 < rem then rem else 0),
                 remaining_amount = rem, pay_user_id = Some u\<rparr>"
  define w3 where "w3 = w\<lparr>store := snd (insert_payment row s2)\<rparr>"
  define t where "t = fst (fst (calculate_total_owed lid w3))"
  define w4 where "w4 = w3\<lparr>store := snd (update_loans ?P
      (\<lambda>r. r\<lparr>status := (if t \<le> 0 then Paid else Active)\<rparr>) (store w3))\<rparr>"
  have nf3: "faults w3 = []"
    using nf by (simp add: w3_def)
  have upd: "bind_io (if 0 < rem
              then execute (update_loans ?P
                     (\<lambda>r. r\<lparr>current_principal := max (round2 (current_principal loan - rem)) 0\<rparr>))
              else return_io ()) k (w\<lparr>store := s1\<rparr>) = k () (w\<lparr>store := s2\<rparr>)" for k :: "unit \<Rightarrow> (bool \<times> string) io"
    using nf by (simp add: bind_io_def return_io_def execute_nofault s2_def)
  have ins: "bind_io (execute (insert_payment row)) k (w\<lparr>store := s2\<rparr>) = k () w3"
    for k :: "unit \<Rightarrow> (bool \<times> string) io"
    using nf by (simp add: bind_io_def execute_nofault w3_def)
  have fin: "(case calculate_total_owed lid w3 of
            ((total_owed, _, _), w1) \<Rightarrow>
              bind_io (execute (update_loans ?P (\<lambda>r. r\<lparr>status := (if total_owed \<le> 0 then Paid else Active)\<rparr>)))
                (\<lambda>_. return_io (True, ''Payment processed successfully'')) w1) =
         (Inr (True, ''Payment processed successfully''), w4)"
    unfolding w4_def t_def
    by (rule status_step_nofault[OF nf3, where g = "\<lambda>t. if t \<le> 0 then Paid else Active"])
  have run: "process_payment_try lid payment_amount pay_date w =
        (Inr (True, ''Payment processed successfully''), w4)"
    unfolding process_payment_try_def
    apply (subst bind_user_signed_in[OF au])
    apply (simp only: option.case)
    apply (subst bind_select_loans_nofault[OF nf])
    apply (simp only: sel list.case)
    apply (subst bind_select_interest_ordered_nofault[OF nf])
    apply (fold entries_def)
    apply (subst bind_io_result[where m = "pay_interest u entries (round2 payment_amount) 0"
          and w = w, OF pay'])
    apply (simp only: prod.case)
    apply (simp only: upd)
    apply (simp only: ins[unfolded row_def] fin)
    done
  show ?thesis
    using run by (simp add: process_payment_def Let_def w4_def t_def w3_def row_def s2_def)
qed


lemma round_half_even_of_int [simp]: "round_half_even (of_int n) = n"
  by (simp add: round_half_even_def)







subsection \<open>The accrual pass without failing requests\<close>

lemma walk_stop: "\<not> date_less cur today \<Longrightarrow> walk today lid princ cur w = (Inr cur, w)"
  by (subst walk.simps) simp

lemma date_less_year: "date_less a b \<Longrightarrow> year a \<le> year b"
  by (auto simp: date_less_def date_key_def)

lemma add_month_Some:
  assumes "year d < MAXYEAR"
  shows "\<exists>d'. add_month d = Some d'"
proof -
  have "\<not> MAXYEAR < year d" "\<not> MAXYEAR < year d + 1" using assms by simp_all
  then show ?thesis by (simp add: add_month_def Let_def)
qed

lemma walk_step_nofault:
  assumes nf: "faults w = []" and lt: "date_less cur today" and nxt: "add_month cur = Some d1"
  shows "walk today lid princ cur w =
     walk today lid princ d1
       (if filter (\<lambda>r. ie_loan_id r = lid \<and> due_date r = cur) (loan_interest_history (store w)) = []
        then w\<lparr>store := snd (insert_interest
               \<lparr>ie_id = 0, ie_loan_id = lid, ie_user_id = None, due_date = cur,
                interest_amount = calculate_interest princ,
                principal_at_time = princ, added_date = today,
                is_paid = False\<rparr> (store w))\<rparr>
        else w)"
  using assms
  by (subst walk.simps) (simp add: execute_nofault select_interest_def)

lemma walk_nofault:
  "faults w = [] \<Longrightarrow> year today < MAXYEAR \<Longrightarrow>
   \<exists>d' s'. walk today lid princ cur w = (Inr d', w\<lparr>store := s'\<rparr>) \<and>
     \<not> date_less d' today \<and> loans_new s' = loans_new (store w)"
proof (induction today lid princ cur w rule: walk.induct)
  case (1 today lid princ cur w)
  show ?case
  proof (cases "date_less cur today")
    case False
    have "w = w\<lparr>store := store w\<rparr>" by simp
    with False show ?thesis by (metis walk_stop)
  next
    case True
    from date_less_year[OF True] "1.prems"(2) have "year cur < MAXYEAR" by simp
    then obtain d1 where nxt: "add_month cur = Some d1" using add_month_Some by blast
    define w2 where "w2 =
       (if filter (\<lambda>r. ie_loan_id r = lid \<and> due_date r = cur) (loan_interest_history (store w)) = []
        then w\<lparr>store := snd (insert_interest
               \<lparr>ie_id = 0, ie_loan_id = lid, ie_user_id = None, due_date = cur,
                interest_amount = calculate_interest princ,
                principal_at_time = princ, added_date = today,
                is_paid = False\<rparr> (store w))\<rparr>
        else w)"
    have step: "walk today lid princ cur w = walk today lid princ d1 w2"
      unfolding w2_def by (rule walk_step_nofault[OF "1.prems"(1) True nxt])
    have nf2: "faults w2 = []" using "1.prems"(1) by (simp add: w2_def)
    have l2: "loans_new (store w2) = loans_new (store w)"
      by (simp add: w2_def insert_interest_def)
    have ww: "w2\<lparr>store := s\<rparr> = w\<lparr>store := s\<rparr>" for s
      by (simp add: w2_def)
    define existing where "existing =
       filter (\<lambda>r. ie_loan_id r = lid \<and> due_date r = cur) (loan_interest_history (store w))"
    have e1: "(Inr existing, w) =
       execute (select_interest (\<lambda>r. ie_loan_id r = lid \<and> due_date r = cur)) w"
      using "1.prems"(1) by (simp add: execute_nofault select_interest_def existing_def)
    have e3: "(Inr (), w2) =
       (if existing = []
        then execute (insert_interest
               \<lparr>ie_id = 0, ie_loan_id = lid, ie_user_id = None, due_date = cur,
                interest_amount = calculate_interest princ,
                principal_at_time = princ, added_date = today,
                is_paid = False\<rparr>) w
        else (Inr (), w))"
      using "1.prems"(1) by (simp add: execute_nofault w2_def existing_def insert_interest_def)
    have "\<exists>d' s'. walk today lid princ d1 w2 = (Inr d', w2\<lparr>store := s'\<rparr>) \<and>
        \<not> date_less d' today \<and> loans_new s' = loans_new (store w2)"
      by (rule "1.IH"[OF True e1 refl e3 refl nxt nf2 "1.prems"(2)])
    then show ?thesis unfolding step ww l2 .
  qed
qed

lemma list_all2_setD2: "list_all2 P xs ys \<Longrightarrow> y \<in> set ys \<Longrightarrow> \<exists>x\<in>set xs. P x y"
  by (induction rule: list_all2_induct) auto

lemma accrued_step:
  assumes "\<not> date_less d' today"
    and "accrued today S (if loan_id x = i then x\<lparr>current_due_date := Some d', status := Overdue\<rparr> else x) y"
  shows "accrued today (insert i S) x y"
  using assms by (auto simp: accrued_def split: if_splits)

lemma accrue_loans_nofault:
  "faults w = [] \<Longrightarrow> year today < MAXYEAR \<Longrightarrow>
   \<exists>s'. accrue_loans today ls w = (Inr (), w\<lparr>store := s'\<rparr>) \<and>
        list_all2 (accrued today (due_ids ls)) (loans_new (store w)) (loans_new s')"
proof (induction ls arbitrary: w)
  case Nil
  have "w = w\<lparr>store := store w\<rparr>" by simp
  moreover have "list_all2 (accrued today (due_ids [])) (loans_new (store w)) (loans_new (store w))"
    by (simp add: list_all2_same accrued_def due_ids_def)
  ultimately show ?case by (metis accrue_loans.simps(1))
next
  case (Cons l ls)
  show ?case
  proof (cases "current_due_date l")
    case None
    then have "due_ids (l # ls) = due_ids ls" by (auto simp: due_ids_def)
    with Cons.IH[OF Cons.prems] None show ?thesis by simp
  next
    case (Some d0)
    obtain d' s1 where wk: "walk today (loan_id l) (current_principal l) d0 w = (Inr d', w\<lparr>store := s1\<rparr>)"
      and nd: "\<not> date_less d' today" and l1: "loans_new s1 = loans_new (store w)"
      using walk_nofault[OF Cons.prems] by blast
    let ?g = "\<lambda>r. if loan_id r = loan_id l then r\<lparr>current_due_date := Some d', status := Overdue\<rparr> else r"
    define w2 where "w2 = w\<lparr>store := snd (update_loans (\<lambda>r. loan_id r = loan_id l)
        (\<lambda>r. r\<lparr>current_due_date := Some d', status := Overdue\<rparr>) s1)\<rparr>"
    have nf2: "faults w2 = []" using Cons.prems(1) by (simp add: w2_def)
    have l2: "loans_new (store w2) = map ?g (loans_new (store w))"
      by (simp add: w2_def update_loans_def l1)
    have step: "accrue_loans today (l # ls) w = accrue_loans today ls w2"
      using Some wk Cons.prems(1) by (simp add: execute_nofault w2_def)
    obtain s' where r: "accrue_loans today ls w2 = (Inr (), w2\<lparr>store := s'\<rparr>)"
      and a: "list_all2 (accrued today (due_ids ls)) (loans_new (store w2)) (loans_new s')"
      using Cons.IH[OF nf2 Cons.prems(2)] by blast
    have ids: "due_ids (l # ls) = insert (loan_id l) (due_ids ls)"
      using Some by (auto simp: due_ids_def)
    have "list_all2 (\<lambda>x y. accrued today (due_ids ls) (?g x) y) (loans_new (store w)) (loans_new s')"
      using a unfolding l2 by (simp add: list_all2_map1)
    then have "list_all2 (accrued today (due_ids (l # ls))) (loans_new (store w)) (loans_new s')"
      unfolding ids by (rule list_all2_mono) (rule accrued_step[OF nd])
    moreover have "w2\<lparr>store := s'\<rparr> = w\<lparr>store := s'\<rparr>" by (simp add: w2_def)
    ultimately show ?thesis using step r by auto
  qed
qed

lemma accrued_settled:
  assumes a: "list_all2 (accrued today (due_ids (filter (\<lambda>r. status r \<noteq> Paid) xs))) xs ys"
  shows "settled today ys"
  unfolding settled_def
proof (intro ballI impI)
  fix r' assume r': "r' \<in> set ys" and np: "status r' \<noteq> Paid"
  from list_all2_setD2[OF a r'] obtain r where r: "r \<in> set xs"
    and acc: "accrued today (due_ids (filter (\<lambda>r. status r \<noteq> Paid) xs)) r r'" by blast
  show "case current_due_date r' of None \<Rightarrow> True
        | Some d \<Rightarrow> \<not> date_less d today \<and> status r' = Overdue"
  proof (cases "loan_id r \<in> due_ids (filter (\<lambda>r. status r \<noteq> Paid) xs)")
    case True
    with acc show ?thesis by (auto simp: accrued_def)
  next
    case False
    with acc have eq: "r' = r" by (simp add: accrued_def)
    with r np False have "current_due_date r = None"
      by (auto simp: due_ids_def)
    with eq show ?thesis by simp
  qed
qed

lemma accrued_ids:
  "list_all2 (accrued today S) xs ys \<Longrightarrow> map loan_id ys = map loan_id xs"
  by (induction rule: list_all2_induct) (auto simp: accrued_def split: if_splits)

lemma accrue_loans_settled:
  assumes nf: "faults w = []" and ids: "distinct (map loan_id (loans_new (store w)))"
    and st: "settled today (loans_new (store w))"
    and sub: "set ls \<subseteq> {r \<in> set (loans_new (store w)). status r \<noteq> Paid}"
  shows "accrue_loans today ls w = (Inr (), w)"
  using sub
proof (induction ls)
  case Nil
  show ?case by simp
next
  case (Cons l ls)
  then have l: "l \<in> set (loans_new (store w))" "status l \<noteq> Paid"
    and rest: "set ls \<subseteq> {r \<in> set (loans_new (store w)). status r \<noteq> Paid}" by auto
  show ?case
  proof (cases "current_due_date l")
    case None
    with Cons.IH[OF rest] show ?thesis by simp
  next
    case (Some d)
    with st l have nd: "\<not> date_less d today" and ov: "status l = Overdue"
      by (auto simp: settled_def)
    have inj: "inj_on loan_id (set (loans_new (store w)))" using ids by (simp add: distinct_map)
    have same: "(if loan_id r = loan_id l then r\<lparr>current_due_date := Some d, status := Overdue\<rparr> else r) = r"
      if "r \<in> set (loans_new (store w))" for r
    proof (cases "loan_id r = loan_id l")
      case True
      with inj that l(1) have "r = l" by (auto dest: inj_onD)
      with Some ov show ?thesis by simp
    qed simp
    have "map (\<lambda>r. if loan_id r = loan_id l then r\<lparr>current_due_date := Some d, status := Overdue\<rparr> else r)
            (loans_new (store w)) = loans_new (store w)"
      using same by (simp add: map_idI)
    then have upd: "execute (update_loans (\<lambda>r. loan_id r = loan_id l)
                        (\<lambda>r. r\<lparr>current_due_date := Some d, status := Overdue\<rparr>)) w = (Inr (), w)"
      using nf by (simp add: execute_nofault update_loans_def)
    show ?thesis
      using Some walk_stop[OF nd] upd Cons.IH[OF rest] by simp
  qed
qed

subsection \<open>What the accrual pass keeps\<close>

lemma preserves_walk:
  assumes fl: "\<And>w. P w \<Longrightarrow> P (w\<lparr>faults := tl (faults w)\<rparr>)"
    and ins: "\<And>w row. ie_loan_id row = lid \<Longrightarrow> P w \<Longrightarrow>
                P (w\<lparr>store := snd (insert_interest row (store w))\<rparr>)"
  shows "P w \<Longrightarrow> P (snd (walk today lid princ cur w))"
  using ins
proof (induction today lid princ cur w rule: walk.induct)
  case (1 today lid princ cur w)
  note Pw = "1.prems"(1) and ins = "1.prems"(2)
  show ?case
  proof (cases "date_less cur today")
    case False
    with Pw show ?thesis by (simp add: walk_stop)
  next
    case True
    let ?sel = "execute (select_interest (\<lambda>r. ie_loan_id r = lid \<and> due_date r = cur))"
    let ?row = "\<lparr>ie_id = 0, ie_loan_id = lid, ie_user_id = None, due_date = cur,
                interest_amount = calculate_interest princ,
                principal_at_time = princ, added_date = today, is_paid = False\<rparr>"
    obtain r1 w1 where e1: "(r1, w1) = ?sel w" by (metis surj_pair)
    have P1: "P w1"
      using preservesD[OF preserves_select_interest[where P = P
            and Q = "\<lambda>r. ie_loan_id r = lid \<and> due_date r = cur", OF fl] Pw] e1[symmetric]
      by simp
    show ?thesis
    proof (cases r1)
      case (Inl e)
      with e1[symmetric] True P1 show ?thesis by (subst walk.simps) simp
    next
      case (Inr existing)
      obtain r2 w2 where e3: "(r2, w2) =
          (if existing = [] then execute (insert_interest ?row) w1 else (Inr (), w1))"
        by (metis surj_pair)
      have "preserves P (execute (insert_interest ?row))"
      proof (rule preserves_execute)
        fix w' assume "P w'"
        then show "P (w'\<lparr>faults := tl (faults w')\<rparr>)" by (rule fl)
      next
        fix w' assume Pw: "P w'"
        have "ie_loan_id ?row = lid" by simp
        from ins[OF this Pw] show "P (w'\<lparr>store := snd (insert_interest ?row (store w'))\<rparr>)" .
      qed
      from preservesD[OF this P1] have "P (snd (execute (insert_interest ?row) w1))" .
      with P1 e3 have P2: "P w2" by (auto split: if_splits dest: arg_cong[where f = snd])
      show ?thesis
      proof (cases r2)
        case (Inl e)
        with e1[symmetric] e3[symmetric] Inr True P2 show ?thesis by (subst walk.simps) simp
      next
        case r2: (Inr u0)
        show ?thesis
        proof (cases "add_month cur")
          case None
          with e1[symmetric] e3[symmetric] Inr r2 True P2 show ?thesis
            by (subst walk.simps) simp
        next
          case (Some d1)
          have "P (snd (walk today lid princ d1 w2))"
            by (rule "1.IH"[OF True e1 Inr e3 r2 Some P2 ins])
          with e1[symmetric] e3[symmetric] Inr r2 True Some show ?thesis
            by (subst walk.simps) simp
        qed
      qed
    qed
  qed
qed

lemma preserves_accrue_loans:
  assumes fl: "\<And>w. P w \<Longrightarrow> P (w\<lparr>faults := tl (faults w)\<rparr>)"
    and ins: "\<And>w row. ie_loan_id row \<in> S \<Longrightarrow> P w \<Longrightarrow>
                P (w\<lparr>store := snd (insert_interest row (store w))\<rparr>)"
    and upd: "\<And>w i d. i \<in> S \<Longrightarrow> P w \<Longrightarrow>
                P (w\<lparr>store := snd (update_loans (\<lambda>r. loan_id r = i)
                  (\<lambda>r. r\<lparr>current_due_date := Some d, status := Overdue\<rparr>) (store w))\<rparr>)"
  shows "loan_id ` set ls \<subseteq> S \<Longrightarrow> P w \<Longrightarrow> P (snd (accrue_loans today ls w))"
proof (induction ls arbitrary: w)
  case Nil
  then show ?case by simp
next
  case (Cons l ls)
  have lS: "loan_id l \<in> S" and rest: "loan_id ` set ls \<subseteq> S"
    using Cons.prems(1) by simp_all
  show ?case
  proof (cases "current_due_date l")
    case None
    have "P (snd (accrue_loans today ls w))" by (rule Cons.IH[OF rest Cons.prems(2)])
    with None show ?thesis by simp
  next
    case (Some d0)
    obtain r1 w1 where wk: "walk today (loan_id l) (current_principal l) d0 w = (r1, w1)"
      by (metis surj_pair)
    have "P (snd (walk today (loan_id l) (current_principal l) d0 w))"
    proof (rule preserves_walk[where P = P])
      fix w' assume "P w'"
      then show "P (w'\<lparr>faults := tl (faults w')\<rparr>)" by (rule fl)
    next
      fix w' and row :: interest_entry assume "ie_loan_id row = loan_id l" "P w'"
      then show "P (w'\<lparr>store := snd (insert_interest row (store w'))\<rparr>)"
        using ins[of row w'] lS by simp
    next
      show "P w" by (rule Cons.prems(2))
    qed
    with wk have P1: "P w1" by simp
    show ?thesis
    proof (cases r1)
      case (Inl e)
      with wk Some P1 show ?thesis by simp
    next
      case (Inr d')
      let ?q = "update_loans (\<lambda>r. loan_id r = loan_id l)
                        (\<lambda>r. r\<lparr>current_due_date := Some d', status := Overdue\<rparr>)"
      obtain r2 w2 where e2: "execute ?q w1 = (r2, w2)" by (metis surj_pair)
      have "preserves P (execute ?q)"
      proof (rule preserves_execute)
        fix w' assume "P w'"
        then show "P (w'\<lparr>faults := tl (faults w')\<rparr>)" by (rule fl)
      next
        fix w' assume "P w'"
        then show "P (w'\<lparr>store := snd (?q (store w'))\<rparr>)" by (rule upd[OF lS])
      qed
      from preservesD[OF this P1] e2 have P2: "P w2" by simp
      have "P (snd (accrue_loans today ls w2))" by (rule Cons.IH[OF rest P2])
      with wk Some Inr e2 P2 show ?thesis by (cases r2) simp_all
    qed
  qed
qed

lemma preserves_check_and_add_overdue_interest:
  assumes fl: "\<And>w. P w \<Longrightarrow> P (w\<lparr>faults := tl (faults w)\<rparr>)"
    and ins: "\<And>w row. ie_loan_id row \<in> S \<Longrightarrow> P w \<Longrightarrow>
                P (w\<lparr>store := snd (insert_interest row (store w))\<rparr>)"
    and upd: "\<And>w i d. i \<in> S \<Longrightarrow> P w \<Longrightarrow>
                P (w\<lparr>store := snd (update_loans (\<lambda>r. loan_id r = i)
                  (\<lambda>r. r\<lparr>current_due_date := Some d, status := Overdue\<rparr>) (store w))\<rparr>)"
    and sub: "loan_id ` {r \<in> set (loans_new (store w)). status r \<noteq> Paid} \<subseteq> S"
  shows "P w \<Longrightarrow> P (snd (check_and_add_overdue_interest today w))"
proof -
  assume P: "P w"
  let ?sel = "execute (select_loans (\<lambda>r. status r \<noteq> Paid))"
  obtain r1 w1 where e1: "?sel w = (r1, w1)" by (metis surj_pair)
  have P1: "P w1"
    using preservesD[OF preserves_select_loans[where P = P and Q = "\<lambda>r. status r \<noteq> Paid", OF fl] P] e1
    by simp
  show ?thesis
  proof (cases r1)
    case (Inl e)
    with e1 P1 show ?thesis by (simp add: check_and_add_overdue_interest_def)
  next
    case (Inr ls)
    with e1 have "ls = filter (\<lambda>r. status r \<noteq> Paid) (loans_new (store w))"
      by (auto simp: execute_def select_loans_def split: list.splits if_splits)
    with sub have subS: "loan_id ` set ls \<subseteq> S" by auto
    have "P (snd (accrue_loans today ls w1))"
    proof (rule preserves_accrue_loans[where P = P and S = S])
      fix w' assume "P w'"
      then show "P (w'\<lparr>faults := tl (faults w')\<rparr>)" by (rule fl)
    next
      fix w' and row :: interest_entry assume "ie_loan_id row \<in> S" "P w'"
      then show "P (w'\<lparr>store := snd (insert_interest row (store w'))\<rparr>)" by (rule ins)
    next
      fix w' i d assume "i \<in> S" "P w'"
      then show "P (w'\<lparr>store := snd (update_loans (\<lambda>r. loan_id r = i)
                  (\<lambda>r. r\<lparr>current_due_date := Some d, status := Overdue\<rparr>) (store w'))\<rparr>)"
        by (rule upd)
    next
      show "loan_id ` set ls \<subseteq> S" by (rule subS)
    next
      show "P w1" by (rule P1)
    qed
    moreover obtain r2 w2 where "accrue_loans today ls w1 = (r2, w2)" by (metis surj_pair)
    ultimately show ?thesis
      using e1 Inr by (cases r2) (simp_all add: check_and_add_overdue_interest_def)
  qed
qed

subsection \<open>The status refresh without failing requests\<close>

lemma total_owed_nofault:
  "faults w = [] \<Longrightarrow> auth_session w = SignedIn u \<Longrightarrow>
   calculate_total_owed lid w =
     ((total_owed_of (store w) u lid,
       fst (snd (fst (calculate_total_owed lid w))), snd (snd (fst (calculate_total_owed lid w)))), w)"
  by (simp add: calculate_total_owed_nofault total_owed_of_def split: list.splits)

lemma total_owed_of_status_update:
  "total_owed_of (snd (update_loans P (\<lambda>r. r\<lparr>status := x\<rparr>) s)) u lid = total_owed_of s u lid"
  by (simp add: total_owed_of_def update_loans_def filter_status_update unpaid_interest_def
        split: list.splits)

lemma resolve_loans_step:
  assumes "faults w = []" "auth_session w = SignedIn u"
  shows "resolve_loans today (l # ls) w =
     resolve_loans today ls
       (w\<lparr>store := snd (update_loans (\<lambda>r. loan_id r = loan_id l)
          (\<lambda>r. r\<lparr>status := derive_status today (total_owed_of (store w) u (loan_id l))
                                (current_due_date l)\<rparr>) (store w))\<rparr>)"
proof -
  from total_owed_nofault[OF assms, of "loan_id l"] obtain a b where
    "calculate_total_owed (loan_id l) w = ((total_owed_of (store w) u (loan_id l), a, b), w)"
    by blast
  then show ?thesis using assms(1) by (simp add: execute_nofault)
qed

lemma find_distinct:
  "distinct (map f xs) \<Longrightarrow> x \<in> set xs \<Longrightarrow> find (\<lambda>y. f y = f x) xs = Some x"
  by (induction xs) auto

lemma resolve_loans_nofault:
  assumes "faults w = []" "auth_session w = SignedIn u" "distinct (map loan_id ls)"
  shows "resolve_loans today ls w =
     (Inr (), w\<lparr>store := (store w)\<lparr>loans_new :=
        map (\<lambda>r. case find (\<lambda>l. loan_id l = loan_id r) ls of
                    None \<Rightarrow> r
                  | Some l \<Rightarrow> r\<lparr>status := derive_status today
                        (total_owed_of (store w) u (loan_id l)) (current_due_date l)\<rparr>)
          (loans_new (store w))\<rparr>\<rparr>)"
  using assms
proof (induction ls arbitrary: w)
  case Nil
  then show ?case by simp
next
  case (Cons l ls)
  let ?x = "derive_status today (total_owed_of (store w) u (loan_id l)) (current_due_date l)"
  define w1 where "w1 = w\<lparr>store := snd (update_loans (\<lambda>r. loan_id r = loan_id l)
          (\<lambda>r. r\<lparr>status := ?x\<rparr>) (store w))\<rparr>"
  have nf1: "faults w1 = []" and au1: "auth_session w1 = SignedIn u"
    using Cons.prems by (simp_all add: w1_def)
  have d: "distinct (map loan_id ls)" and notin: "loan_id l \<notin> loan_id ` set ls"
    using Cons.prems(3) by simp_all
  have tot: "total_owed_of (store w1) u i = total_owed_of (store w) u i" for i
    by (simp add: w1_def total_owed_of_status_update)
  have none: "find (\<lambda>l'. loan_id l' = loan_id l) ls = None"
    using notin unfolding find_None_iff by (metis imageI)
  have "resolve_loans today (l # ls) w = resolve_loans today ls w1"
    unfolding w1_def by (rule resolve_loans_step[OF Cons.prems(1,2)])
  also have "\<dots> = (Inr (), w1\<lparr>store := (store w1)\<lparr>loans_new :=
        map (\<lambda>r. case find (\<lambda>l. loan_id l = loan_id r) ls of
                    None \<Rightarrow> r
                  | Some l \<Rightarrow> r\<lparr>status := derive_status today
                        (total_owed_of (store w1) u (loan_id l)) (current_due_date l)\<rparr>)
          (loans_new (store w1))\<rparr>\<rparr>)"
    by (rule Cons.IH[OF nf1 au1 d])
  also have "\<dots> = (Inr (), w\<lparr>store := (store w)\<lparr>loans_new :=
        map (\<lambda>r. case find (\<lambda>l. loan_id l = loan_id r) (l # ls) of
                    None \<Rightarrow> r
                  | Some l \<Rightarrow> r\<lparr>status := derive_status today
                        (total_owed_of (store w) u (loan_id l)) (current_due_date l)\<rparr>)
          (loans_new (store w))\<rparr>\<rparr>)"
    unfolding tot using none
    by (auto simp: w1_def update_loans_def)
  finally show ?case .
qed

lemma update_loan_statuses_nofault:
  assumes nf: "faults w = []" and au: "auth_session w = SignedIn u"
    and ids: "distinct (map loan_id (loans_new (store w)))"
  shows "\<exists>w0. snd (check_and_add_overdue_interest today w) = w0 \<and> faults w0 = [] \<and>
     auth_session w0 = SignedIn u \<and> distinct (map loan_id (loans_new (store w0))) \<and>
     update_loan_statuses today w =
       (True, w0\<lparr>store := (store w0)\<lparr>loans_new :=
                 map (resolved today (store w0) u) (loans_new (store w0))\<rparr>\<rparr>)"
proof -
  define w0 where "w0 = snd (check_and_add_overdue_interest today w)"
  let ?P = "\<lambda>x. faults x = [] \<and> auth_session x = SignedIn u \<and>
      map loan_id (loans_new (store x)) = map loan_id (loans_new (store w))"
  have keep: "loan_id (if b then x\<lparr>current_due_date := a, status := c\<rparr> else x) = loan_id x"
    for b a c and x :: loan
    by simp
  have "?P w0"
    unfolding w0_def
    by (rule preserves_check_and_add_overdue_interest[where P = "?P" and S = UNIV])
       (simp_all add: nf au insert_interest_def update_loans_def comp_def keep)
  then have nf0: "faults w0 = []" and au0: "auth_session w0 = SignedIn u"
    and ids0: "distinct (map loan_id (loans_new (store w0)))"
    using ids by simp_all
  have f: "(case find (\<lambda>l. loan_id l = loan_id r) (loans_new (store w0)) of
                    None \<Rightarrow> r
                  | Some l \<Rightarrow> r\<lparr>status := derive_status today
                        (total_owed_of (store w0) u (loan_id l)) (current_due_date l)\<rparr>) =
           resolved today (store w0) u r" if "r \<in> set (loans_new (store w0))" for r
    using find_distinct[OF ids0 that] by (simp add: resolved_def)
  have "resolve_loans today (loans_new (store w0)) w0 =
     (Inr (), w0\<lparr>store := (store w0)\<lparr>loans_new :=
                 map (resolved today (store w0) u) (loans_new (store w0))\<rparr>\<rparr>)"
    unfolding resolve_loans_nofault[OF nf0 au0 ids0]
    using f by (simp cong: map_cong)
  moreover obtain b0 where "check_and_add_overdue_interest today w = (b0, w0)"
    unfolding w0_def by (metis prod.collapse)
  ultimately have "update_loan_statuses today w =
       (True, w0\<lparr>store := (store w0)\<lparr>loans_new :=
                 map (resolved today (store w0) u) (loans_new (store w0))\<rparr>\<rparr>)"
    using nf0 by (simp add: update_loan_statuses_def execute_nofault select_loans_def)
  with nf0 au0 ids0 show ?thesis unfolding w0_def by blast
qed

lemma filter_owner_distinct:
  "distinct (map loan_id xs) \<Longrightarrow> r \<in> set xs \<Longrightarrow> loan_user_id r = Some u \<Longrightarrow>
   filter (\<lambda>x. loan_user_id x = Some u \<and> loan_id x = loan_id r) xs = [r]"
proof (induction xs)
  case Nil
  then show ?case by simp
next
  case (Cons x xs)
  show ?case
  proof (cases "x = r")
    case True
    have "filter (\<lambda>x. loan_user_id x = Some u \<and> loan_id x = loan_id r) xs = []"
      using Cons.prems(1) True by (auto simp: filter_empty_conv intro: rev_image_eqI)
    with True Cons.prems(3) show ?thesis by simp
  next
    case False
    with Cons.prems have "r \<in> set xs" "loan_id x \<noteq> loan_id r" by auto
    with Cons show ?thesis by simp
  qed
qed

lemma resolved_simps [simp]:
  "loan_id (resolved today s u r) = loan_id r"
  "loan_user_id (resolved today s u r) = loan_user_id r"
  "current_principal (resolved today s u r) = current_principal r"
  "current_due_date (resolved today s u r) = current_due_date r"
  "status (resolved today s u r) =
     derive_status today (total_owed_of s u (loan_id r)) (current_due_date r)"
  by (simp_all add: resolved_def)

subsection \<open>An accrual pass with nothing to insert\<close>

lemma check_and_add_nofault:
  assumes nf: "faults w = []" and yr: "year today < MAXYEAR"
  shows "\<exists>s'. check_and_add_overdue_interest today w = (True, w\<lparr>store := s'\<rparr>) \<and>
     list_all2 (accrued today (due_ids (filter (\<lambda>r. status r \<noteq> Paid) (loans_new (store w)))))
       (loans_new (store w)) (loans_new s')"
proof -
  let ?ls = "filter (\<lambda>r. status r \<noteq> Paid) (loans_new (store w))"
  obtain s' where run: "accrue_loans today ?ls w = (Inr (), w\<lparr>store := s'\<rparr>)"
    and acc: "list_all2 (accrued today (due_ids ?ls)) (loans_new (store w)) (loans_new s')"
    using accrue_loans_nofault[OF nf yr] by blast
  have first: "check_and_add_overdue_interest today w = (True, w\<lparr>store := s'\<rparr>)"
    using nf run by (simp add: check_and_add_overdue_interest_def execute_nofault select_loans_def)
  show ?thesis by (rule exI[where x = s']) (rule conjI[OF first acc])
qed

lemma update_loans_nofault:
  "faults w = [] \<Longrightarrow>
   execute (update_loans Q f) w =
     (Inr (), w\<lparr>store := (store w)\<lparr>loans_new :=
        map (\<lambda>r. if Q r then f r else r) (loans_new (store w))\<rparr>\<rparr>)"
  by (simp add: execute_nofault update_loans_def)

lemma set_due_stored:
  "current_due_date r = Some d \<Longrightarrow>
   r\<lparr>current_due_date := Some d, status := x\<rparr> = (r\<lparr>status := x\<rparr> :: loan)"
  by (cases r) simp

lemma set_due_stored_map:
  assumes same: "\<And>r. r \<in> set xs \<Longrightarrow> loan_id r = loan_id l \<Longrightarrow> current_due_date r = Some d"
  shows "map (\<lambda>r. if loan_id r = loan_id l
                  then r\<lparr>current_due_date := Some d, status := Overdue\<rparr> else r) xs =
         map (\<lambda>r. if loan_id r = loan_id l then r\<lparr>status := Overdue\<rparr> else r) (xs :: loan list)"
proof (rule map_cong[OF refl])
  fix r assume r: "r \<in> set xs"
  show "(if loan_id r = loan_id l
                  then r\<lparr>current_due_date := Some d, status := Overdue\<rparr> else r) =
        (if loan_id r = loan_id l then r\<lparr>status := Overdue\<rparr> else r)"
  proof (cases "loan_id r = loan_id l")
    case True
    from set_due_stored[OF same[OF r True]] True show ?thesis by (simp only: if_True)
  next
    case False
    then show ?thesis by (simp only: if_False)
  qed
qed

lemma accrue_loans_quiet:
  assumes nf: "faults w = []"
    and q: "\<forall>l \<in> set ls. \<forall>d. current_due_date l = Some d \<longrightarrow>
              \<not> date_less d today \<and>
              (\<forall>r \<in> set (loans_new (store w)). loan_id r = loan_id l \<longrightarrow> current_due_date r = Some d)"
  shows "accrue_loans today ls w =
     (Inr (), w\<lparr>store := (store w)\<lparr>loans_new :=
        map (\<lambda>r. if loan_id r \<in> due_ids ls then r\<lparr>status := Overdue\<rparr> else r)
          (loans_new (store w))\<rparr>\<rparr>)"
  using assms
proof (induction ls arbitrary: w)
  case Nil
  then show ?case by (simp add: due_ids_def)
next
  case (Cons l ls)
  note nf = Cons.prems(1) and q = Cons.prems(2)
  have qx: "\<not> date_less d today \<and>
              (\<forall>r \<in> set (loans_new (store w)). loan_id r = loan_id x \<longrightarrow> current_due_date r = Some d)"
    if "x \<in> set (l # ls)" "current_due_date x = Some d" for x d
    using bspec[OF q that(1), THEN spec, THEN mp, OF that(2)] .
  show ?case
  proof (cases "current_due_date l")
    case None
    then have ids: "due_ids (l # ls) = due_ids ls" by (auto simp: due_ids_def)
    have qrest: "\<forall>l \<in> set ls. \<forall>d. current_due_date l = Some d \<longrightarrow>
              \<not> date_less d today \<and>
              (\<forall>r \<in> set (loans_new (store w)). loan_id r = loan_id l \<longrightarrow> current_due_date r = Some d)"
    proof (intro ballI allI impI)
      fix x d assume "x \<in> set ls" and d: "current_due_date x = Some d"
      then have "x \<in> set (l # ls)" by simp
      from qx[OF this d]
      show "\<not> date_less d today \<and>
              (\<forall>r \<in> set (loans_new (store w)). loan_id r = loan_id x \<longrightarrow> current_due_date r = Some d)" .
    qed
    have "accrue_loans today (l # ls) w = accrue_loans today ls w" using None by simp
    also note Cons.IH[OF nf qrest]
    finally show ?thesis unfolding ids .
  next
    case (Some d)
    have hd: "l \<in> set (l # ls)" by simp
    note qd = qx[OF hd Some]
    have nd: "\<not> date_less d today" by (rule conjunct1[OF qd])
    have same: "current_due_date r = Some d"
      if "r \<in> set (loans_new (store w))" "loan_id r = loan_id l" for r
      using bspec[OF conjunct2[OF qd] that(1), THEN mp, OF that(2)] .
    let ?f = "\<lambda>r. if loan_id r = loan_id l
                  then r\<lparr>current_due_date := Some d, status := Overdue\<rparr> else r"
    let ?g = "\<lambda>r. if loan_id r = loan_id l then r\<lparr>status := Overdue\<rparr> else r"
    let ?h = "\<lambda>S r. if loan_id r \<in> S then r\<lparr>status := Overdue\<rparr> else r"
    have fg: "map ?f (loans_new (store w)) = map ?g (loans_new (store w))"
      by (rule set_due_stored_map) (rule same)
    define w1 where "w1 = w\<lparr>store := (store w)\<lparr>loans_new := map ?g (loans_new (store w))\<rparr>\<rparr>"
    have nf1: "faults w1 = []" using nf by (simp add: w1_def)
    have l1: "loans_new (store w1) = map ?g (loans_new (store w))" by (simp add: w1_def)
    have upd: "execute (update_loans (\<lambda>r. loan_id r = loan_id l)
                        (\<lambda>r. r\<lparr>current_due_date := Some d, status := Overdue\<rparr>)) w = (Inr (), w1)"
      unfolding update_loans_nofault[OF nf] fg w1_def ..
    have step: "accrue_loans today (l # ls) w = accrue_loans today ls w1"
      using Some walk_stop[OF nd] upd by simp
    have q1: "\<forall>l \<in> set ls. \<forall>d. current_due_date l = Some d \<longrightarrow>
              \<not> date_less d today \<and>
              (\<forall>r \<in> set (loans_new (store w1)). loan_id r = loan_id l \<longrightarrow> current_due_date r = Some d)"
    proof (intro ballI allI impI conjI)
      fix x d' assume "x \<in> set ls" and d': "current_due_date x = Some d'"
      then have "x \<in> set (l # ls)" by simp
      note qd' = qx[OF this d']
      show "\<not> date_less d' today" by (rule conjunct1[OF qd'])
      fix r assume r: "r \<in> set (loans_new (store w1))" and rid: "loan_id r = loan_id x"
      from r obtain r0 where r0: "r0 \<in> set (loans_new (store w))" and rr: "r = ?g r0"
        unfolding l1 by auto
      have e1: "loan_id r = loan_id r0" and e2: "current_due_date r = current_due_date r0"
        unfolding rr by simp_all
      have "loan_id r0 = loan_id x" using rid e1 by simp
      from bspec[OF conjunct2[OF qd'] r0, THEN mp, OF this]
      show "current_due_date r = Some d'" unfolding e2 .
    qed
    have ids: "due_ids (l # ls) = insert (loan_id l) (due_ids ls)"
      using Some by (auto simp: due_ids_def)
    have hg: "map (?h (due_ids ls)) (map ?g xs) = map (?h (insert (loan_id l) (due_ids ls))) xs"
      for xs :: "loan list"
      by (induction xs) simp_all
    have fin: "w1\<lparr>store := (store w1)\<lparr>loans_new := map (?h (due_ids ls)) (loans_new (store w1))\<rparr>\<rparr> =
               w\<lparr>store := (store w)\<lparr>loans_new := map (?h (due_ids (l # ls))) (loans_new (store w))\<rparr>\<rparr>"
      unfolding l1 hg ids by (simp add: w1_def)
    have "accrue_loans today ls w1 =
     (Inr (), w1\<lparr>store := (store w1)\<lparr>loans_new := map (?h (due_ids ls)) (loans_new (store w1))\<rparr>\<rparr>)"
      by (rule Cons.IH[OF nf1 q1])
    with step fin show ?thesis by simp
  qed
qed

lemma accrued_keys:
  "list_all2 (accrued today S) xs ys \<Longrightarrow> map loan_key ys = map loan_key xs"
  by (induction rule: list_all2_induct) (auto simp: accrued_def loan_key_def split: if_splits)

lemma filter_map_key:
  "map loan_key (filter (\<lambda>r. loan_user_id r = Some u \<and> loan_id r = i) xs) =
   filter (\<lambda>k. fst (snd k) = Some u \<and> fst k = i) (map loan_key xs)"
  by (induction xs) (auto simp: loan_key_def)

lemma total_owed_of_cong:
  assumes k: "map loan_key (loans_new s') = map loan_key (loans_new s)"
    and un: "unpaid_interest s' i = unpaid_interest s i"
  shows "total_owed_of s' u i = total_owed_of s u i"
proof -
  let ?F = "\<lambda>s. filter (\<lambda>r. loan_user_id r = Some u \<and> loan_id r = i) (loans_new s)"
  have m: "map loan_key (?F s') = map loan_key (?F s)"
    by (simp only: filter_map_key k)
  show ?thesis
  proof (cases "?F s")
    case Nil
    with m have "?F s' = []" by simp
    with Nil show ?thesis by (simp add: total_owed_of_def)
  next
    case (Cons a as)
    with m obtain b bs where b: "?F s' = b # bs" by (cases "?F s'") auto
    with Cons m have "loan_key b = loan_key a" by simp
    then have "current_principal b = current_principal a" by (simp add: loan_key_def)
    with Cons b un show ?thesis by (simp add: total_owed_of_def)
  qed
qed

lemma total_owed_of_same:
  assumes "map loan_key (loans_new s') = map loan_key (loans_new s)"
    and "loan_interest_history s' = loan_interest_history s"
  shows "total_owed_of s' u i = total_owed_of s u i"
  by (rule total_owed_of_cong) (simp_all add: unpaid_interest_def assms)

lemma loan_key_resolved [simp]: "loan_key (resolved today s u r) = loan_key r"
  by (simp add: loan_key_def)

lemma loan_key_mark [simp]:
  "loan_key (if b then r\<lparr>status := x\<rparr> else r) = loan_key r"
  by (simp add: loan_key_def)

lemma resolved_mark:
  "resolved today s u (if b then r\<lparr>status := x\<rparr> else r) = resolved today s u r"
  by (simp add: resolved_def)

lemma resolved_resolved:
  "total_owed_of s' u (loan_id r) = total_owed_of s u (loan_id r) \<Longrightarrow>
   resolved today s' u (resolved today s u r) = resolved today s u r"
  by (simp add: resolved_def)

lemma unpaid_interest_accrual:
  assumes i: "i \<notin> loan_id ` {r \<in> set (loans_new (store w)). status r \<noteq> Paid}"
  shows "unpaid_interest (store (snd (check_and_add_overdue_interest today w))) i =
         unpaid_interest (store w) i"
proof -
  let ?S = "loan_id ` {r \<in> set (loans_new (store w)). status r \<noteq> Paid}"
  let ?P = "\<lambda>x. unpaid_interest (store x) i = unpaid_interest (store w) i"
  have "?P (snd (check_and_add_overdue_interest today w))"
  proof (rule preserves_check_and_add_overdue_interest[where P = "?P" and S = "?S"])
    show "?P w" ..
    show "?S \<subseteq> ?S" ..
  next
    fix x assume "?P x"
    then show "?P (x\<lparr>faults := tl (faults x)\<rparr>)" by simp
  next
    fix x and row :: interest_entry assume "ie_loan_id row \<in> ?S" and P: "?P x"
    with i have "ie_loan_id row \<noteq> i" by blast
    with P show "?P (x\<lparr>store := snd (insert_interest row (store x))\<rparr>)"
      by (simp add: insert_interest_def unpaid_interest_def)
  next
    fix x j d assume "?P x"
    then show "?P (x\<lparr>store := snd (update_loans (\<lambda>r. loan_id r = j)
                  (\<lambda>r. r\<lparr>current_due_date := Some d, status := Overdue\<rparr>) (store x))\<rparr>)"
      by (simp add: update_loans_def unpaid_interest_def)
  qed
  then show ?thesis .
qed

lemma refresh_due_later:
  assumes nf: "faults w = []" and ids: "distinct (map loan_id (loans_new (store w)))"
    and yr: "year today < MAXYEAR"
    and H: "\<forall>r \<in> set (loans_new (store w)). status r = Paid \<longrightarrow>
              total_owed_of (store w) u (loan_id r) \<le> 0"
    and r0: "r0 \<in> set (loans_new (store (snd (check_and_add_overdue_interest today w))))"
    and owe: "0 < total_owed_of (store (snd (check_and_add_overdue_interest today w))) u (loan_id r0)"
    and due: "current_due_date r0 = Some d"
  shows "\<not> date_less d today"
proof -
  let ?np = "filter (\<lambda>r. status r \<noteq> Paid) (loans_new (store w))"
  let ?S = "loan_id ` {r \<in> set (loans_new (store w)). status r \<noteq> Paid}"
  obtain s0 where ca: "check_and_add_overdue_interest today w = (True, w\<lparr>store := s0\<rparr>)"
    and acc: "list_all2 (accrued today (due_ids ?np)) (loans_new (store w)) (loans_new s0)"
    using check_and_add_nofault[OF nf yr] by blast
  have st0: "store (snd (check_and_add_overdue_interest today w)) = s0" by (simp add: ca)
  from r0 have r0': "r0 \<in> set (loans_new s0)" by (simp add: ca)
  from list_all2_setD2[OF acc r0'] obtain r where r: "r \<in> set (loans_new (store w))"
    and a: "accrued today (due_ids ?np) r r0" by blast
  show ?thesis
  proof (cases "loan_id r \<in> due_ids ?np")
    case True
    with a due show ?thesis by (auto simp: accrued_def)
  next
    case False
    with a have eq: "r0 = r" by (simp add: accrued_def)
    have paid: "status r = Paid"
    proof (rule ccontr)
      assume "status r \<noteq> Paid"
      with r due eq have "loan_id r \<in> due_ids ?np" by (auto simp: due_ids_def)
      with False show False ..
    qed
    have inj: "inj_on loan_id (set (loans_new (store w)))" using ids by (simp add: distinct_map)
    have notin: "loan_id r \<notin> ?S"
    proof
      assume "loan_id r \<in> ?S"
      then obtain r' where r': "r' \<in> set (loans_new (store w))" "status r' \<noteq> Paid"
        "loan_id r = loan_id r'" by auto
      from inj_onD[OF inj r'(3) r r'(1)] paid r'(2) show False by simp
    qed
    have un: "unpaid_interest s0 (loan_id r) = unpaid_interest (store w) (loan_id r)"
      using unpaid_interest_accrual[OF notin, of today] unfolding st0 .
    have "total_owed_of s0 u (loan_id r) = total_owed_of (store w) u (loan_id r)"
      by (rule total_owed_of_cong[OF accrued_keys[OF acc] un])
    moreover from H r paid have "total_owed_of (store w) u (loan_id r) \<le> 0" by blast
    ultimately show ?thesis using owe unfolding st0 eq by simp
  qed
qed

lemma refresh_twice:
  assumes nf: "faults w = []" and au: "auth_session w = SignedIn u"
    and ids: "distinct (map loan_id (loans_new (store w)))"
    and yr: "year today < MAXYEAR"
    and H: "\<forall>r \<in> set (loans_new (store w)). status r = Paid \<longrightarrow>
              total_owed_of (store w) u (loan_id r) \<le> 0"
  shows "update_loan_statuses today (snd (update_loan_statuses today w)) =
           (True, snd (update_loan_statuses today w))"
proof -
  obtain w0 where w0: "snd (check_and_add_overdue_interest today w) = w0"
    and nf0: "faults w0 = []" and au0: "auth_session w0 = SignedIn u"
    and ids0: "distinct (map loan_id (loans_new (store w0)))"
    and first: "update_loan_statuses today w =
       (True, w0\<lparr>store := (store w0)\<lparr>loans_new :=
                 map (resolved today (store w0) u) (loans_new (store w0))\<rparr>\<rparr>)"
    using update_loan_statuses_nofault[OF nf au ids, of today] by blast
  define xs1 where "xs1 = map (resolved today (store w0) u) (loans_new (store w0))"
  define w1 where "w1 = w0\<lparr>store := (store w0)\<lparr>loans_new := xs1\<rparr>\<rparr>"
  have first': "snd (update_loan_statuses today w) = w1"
    by (simp add: first w1_def xs1_def)
  have nf1: "faults w1 = []" and au1: "auth_session w1 = SignedIn u"
    and l1: "loans_new (store w1) = xs1"
    and h1: "loan_interest_history (store w1) = loan_interest_history (store w0)"
    using nf0 au0 by (simp_all add: w1_def)
  have idm: "map loan_id xs1 = map loan_id (loans_new (store w0))"
    by (simp add: xs1_def comp_def)
  have ids1: "distinct (map loan_id (loans_new (store w1)))"
    unfolding l1 idm by (rule ids0)
  have inj1: "inj_on loan_id (set xs1)" using ids1 unfolding l1 by (simp add: distinct_map)
  let ?ls = "filter (\<lambda>r. status r \<noteq> Paid) xs1"
  have q: "\<forall>l \<in> set ?ls. \<forall>d. current_due_date l = Some d \<longrightarrow>
              \<not> date_less d today \<and>
              (\<forall>r \<in> set (loans_new (store w1)). loan_id r = loan_id l \<longrightarrow> current_due_date r = Some d)"
  proof (intro ballI allI impI conjI)
    fix l d assume l: "l \<in> set ?ls" and d: "current_due_date l = Some d"
    from l have lx: "l \<in> set xs1" and np: "status l \<noteq> Paid" by simp_all
    from lx obtain r0 where r0: "r0 \<in> set (loans_new (store w0))"
      and lr: "l = resolved today (store w0) u r0" unfolding xs1_def by auto
    from np have "0 < total_owed_of (store w0) u (loan_id r0)"
      unfolding lr by (simp add: derive_status_def split: if_splits)
    moreover from d have "current_due_date r0 = Some d" unfolding lr by simp
    ultimately show "\<not> date_less d today"
      using refresh_due_later[OF nf ids yr H, of r0 d] r0 unfolding w0 by blast
    fix r assume r: "r \<in> set (loans_new (store w1))" and e: "loan_id r = loan_id l"
    from r have "r \<in> set xs1" unfolding l1 .
    from inj_onD[OF inj1 e this lx] d show "current_due_date r = Some d" by simp
  qed
  define xs2 where
    "xs2 = map (\<lambda>r. if loan_id r \<in> due_ids ?ls then r\<lparr>status := Overdue\<rparr> else r) xs1"
  define w2 where "w2 = w1\<lparr>store := (store w1)\<lparr>loans_new := xs2\<rparr>\<rparr>"
  have run: "accrue_loans today ?ls w1 = (Inr (), w2)"
    unfolding w2_def xs2_def using accrue_loans_quiet[OF nf1 q] unfolding l1 .
  have ca2: "check_and_add_overdue_interest today w1 = (True, w2)"
    using nf1 run l1
    by (simp add: check_and_add_overdue_interest_def execute_nofault select_loans_def)
  have l2: "loans_new (store w2) = xs2"
    and h2: "loan_interest_history (store w2) = loan_interest_history (store w0)"
    by (simp_all add: w2_def h1)
  obtain w0' where w0': "snd (check_and_add_overdue_interest today w1) = w0'"
    and second: "update_loan_statuses today w1 =
       (True, w0'\<lparr>store := (store w0')\<lparr>loans_new :=
                 map (resolved today (store w0') u) (loans_new (store w0'))\<rparr>\<rparr>)"
    using update_loan_statuses_nofault[OF nf1 au1 ids1, of today] by blast
  have w02: "w0' = w2" using w0' ca2 by simp
  have keys: "map loan_key (loans_new (store w2)) = map loan_key (loans_new (store w0))"
    unfolding l2 by (simp add: xs2_def xs1_def comp_def)
  have tot: "total_owed_of (store w2) u i = total_owed_of (store w0) u i" for i
    by (rule total_owed_of_same[OF keys h2])
  have restored: "map (resolved today (store w2) u) xs2 = xs1"
    unfolding xs2_def xs1_def
    by (simp add: comp_def resolved_mark resolved_resolved tot)
  have "w2\<lparr>store := (store w2)\<lparr>loans_new := map (resolved today (store w2) u) (loans_new (store w2))\<rparr>\<rparr> = w1"
    unfolding l2 restored by (simp add: w2_def w1_def)
  then show ?thesis unfolding first' second w02 by simp
qed

subsection \<open>The status refresh without a signed-in caller\<close>

lemma calculate_total_owed_no_user:
  assumes "\<And>u. auth_session w \<noteq> SignedIn u"
  shows "calculate_total_owed lid w = ((0, 0, 0), w)"
proof (cases "auth_session w")
  case (SignedIn u)
  with assms show ?thesis by blast
qed (simp_all add: calculate_total_owed_def get_table_data_loans_def get_current_user_id_def)

lemma resolve_loans_no_user:
  assumes "faults w = []" and "\<And>u. auth_session w \<noteq> SignedIn u"
  shows "resolve_loans today ls w =
     (Inr (), w\<lparr>store := (store w)\<lparr>loans_new :=
        map (\<lambda>r. if loan_id r \<in> loan_id ` set ls then r\<lparr>status := Paid\<rparr> else r)
          (loans_new (store w))\<rparr>\<rparr>)"
  using assms
proof (induction ls arbitrary: w)
  case Nil
  then show ?case by simp
next
  case (Cons l ls)
  let ?g = "\<lambda>r. if loan_id r = loan_id l then r\<lparr>status := Paid\<rparr> else r"
  define w1 where "w1 = w\<lparr>store := (store w)\<lparr>loans_new := map ?g (loans_new (store w))\<rparr>\<rparr>"
  have nf1: "faults w1 = []" and au1: "\<And>u. auth_session w1 \<noteq> SignedIn u"
    using Cons.prems by (simp_all add: w1_def)
  have l1: "loans_new (store w1) = map ?g (loans_new (store w))" by (simp add: w1_def)
  have tot: "calculate_total_owed (loan_id l) w = ((0, 0, 0), w)"
    by (rule calculate_total_owed_no_user) (rule Cons.prems(2))
  have upd: "execute (update_loans (\<lambda>r. loan_id r = loan_id l)
               (\<lambda>r. r\<lparr>status := derive_status today 0 (current_due_date l)\<rparr>)) w = (Inr (), w1)"
    using Cons.prems(1) by (simp add: execute_nofault update_loans_def w1_def derive_status_def)
  have step: "resolve_loans today (l # ls) w = resolve_loans today ls w1"
    using tot upd by simp
  have mm: "map (\<lambda>r. if loan_id r \<in> loan_id ` set ls then r\<lparr>status := Paid\<rparr> else r) (map ?g xs) =
            map (\<lambda>r. if loan_id r \<in> loan_id ` set (l # ls) then r\<lparr>status := Paid\<rparr> else r) xs"
    for xs :: "loan list"
    by (induction xs) simp_all
  have "resolve_loans today ls w1 =
     (Inr (), w1\<lparr>store := (store w1)\<lparr>loans_new :=
        map (\<lambda>r. if loan_id r \<in> loan_id ` set ls then r\<lparr>status := Paid\<rparr> else r)
          (loans_new (store w1))\<rparr>\<rparr>)"
    by (rule Cons.IH[OF nf1 au1])
  also have "\<dots> = (Inr (), w\<lparr>store := (store w)\<lparr>loans_new :=
        map (\<lambda>r. if loan_id r \<in> loan_id ` set (l # ls) then r\<lparr>status := Paid\<rparr> else r)
          (loans_new (store w))\<rparr>\<rparr>)"
    unfolding l1 mm by (simp add: w1_def)
  finally show ?case unfolding step .
qed

lemma update_loan_statuses_no_user:
  assumes nf: "faults w = []" and au: "\<And>u. auth_session w \<noteq> SignedIn u"
  shows "\<exists>w0. snd (check_and_add_overdue_interest today w) = w0 \<and> faults w0 = [] \<and>
     auth_session w0 = auth_session w \<and>
     update_loan_statuses today w =
       (True, w0\<lparr>store := (store w0)\<lparr>loans_new :=
                 map (\<lambda>r. r\<lparr>status := Paid\<rparr>) (loans_new (store w0))\<rparr>\<rparr>)"
proof -
  define w0 where "w0 = snd (check_and_add_overdue_interest today w)"
  let ?P = "\<lambda>x. faults x = [] \<and> auth_session x = auth_session w"
  have "?P w0"
    unfolding w0_def
    by (rule preserves_check_and_add_overdue_interest[where P = "?P" and S = UNIV])
       (simp_all add: nf)
  then have nf0: "faults w0 = []" and au0: "auth_session w0 = auth_session w" by simp_all
  have au0': "\<And>u. auth_session w0 \<noteq> SignedIn u" unfolding au0 by (rule au)
  have "map (\<lambda>r. if loan_id r \<in> loan_id ` set xs then r\<lparr>status := Paid\<rparr> else r) xs =
        map (\<lambda>r. r\<lparr>status := Paid\<rparr>) xs" for xs :: "loan list"
    by (rule map_cong[OF refl]) simp
  then have "resolve_loans today (loans_new (store w0)) w0 =
     (Inr (), w0\<lparr>store := (store w0)\<lparr>loans_new :=
                 map (\<lambda>r. r\<lparr>status := Paid\<rparr>) (loans_new (store w0))\<rparr>\<rparr>)"
    unfolding resolve_loans_no_user[OF nf0 au0'] by simp
  moreover obtain b0 where "check_and_add_overdue_interest today w = (b0, w0)"
    unfolding w0_def by (metis prod.collapse)
  ultimately have "update_loan_statuses today w =
       (True, w0\<lparr>store := (store w0)\<lparr>loans_new :=
                 map (\<lambda>r. r\<lparr>status := Paid\<rparr>) (loans_new (store w0))\<rparr>\<rparr>)"
    using nf0 by (simp add: update_loan_statuses_def execute_nofault select_loans_def)
  with nf0 au0 show ?thesis unfolding w0_def by blast
qed

lemma refresh_twice_no_user:
  assumes nf: "faults w = []" and au: "\<And>u. auth_session w \<noteq> SignedIn u"
  shows "update_loan_statuses today (snd (update_loan_statuses today w)) =
           (True, snd (update_loan_statuses today w))"
proof -
  obtain w0 where nf0: "faults w0 = []" and au0: "auth_session w0 = auth_session w"
    and first: "update_loan_statuses today w =
       (True, w0\<lparr>store := (store w0)\<lparr>loans_new :=
                 map (\<lambda>r. r\<lparr>status := Paid\<rparr>) (loans_new (store w0))\<rparr>\<rparr>)"
    using update_loan_statuses_no_user[OF nf au, of today] by blast
  define w1 where "w1 = w0\<lparr>store := (store w0)\<lparr>loans_new :=
                 map (\<lambda>r. r\<lparr>status := Paid\<rparr>) (loans_new (store w0))\<rparr>\<rparr>"
  have first': "snd (update_loan_statuses today w) = w1" by (simp add: first w1_def)
  have nf1: "faults w1 = []" using nf0 by (simp add: w1_def)
  have au1: "\<And>u. auth_session w1 \<noteq> SignedIn u" using au au0 by (simp add: w1_def)
  have none: "filter (\<lambda>r. status r \<noteq> Paid) (loans_new (store w1)) = []"
    by (simp add: w1_def filter_empty_conv)
  have ca: "check_and_add_overdue_interest today w1 = (True, w1)"
    using nf1 none
    by (simp add: check_and_add_overdue_interest_def execute_nofault select_loans_def)
  obtain w0' where w0': "snd (check_and_add_overdue_interest today w1) = w0'"
    and second: "update_loan_statuses today w1 =
       (True, w0'\<lparr>store := (store w0')\<lparr>loans_new :=
                 map (\<lambda>r. r\<lparr>status := Paid\<rparr>) (loans_new (store w0'))\<rparr>\<rparr>)"
    using update_loan_statuses_no_user[OF nf1 au1, of today] by blast
  have w01: "w0' = w1" using w0' ca by simp
  have "w1\<lparr>store := (store w1)\<lparr>loans_new :=
                 map (\<lambda>r. r\<lparr>status := Paid\<rparr>) (loans_new (store w1))\<rparr>\<rparr> = w1"
    by (simp add: w1_def comp_def)
  then show ?thesis unfolding first' second w01 by simp
qed

subsection \<open>Two passes in succession\<close>

lemma check_and_add_twice:
  assumes nf: "faults w = []" and ids: "distinct (map loan_id (loans_new (store w)))"
    and yr: "year today < MAXYEAR"
  shows "fst (check_and_add_overdue_interest today w) = True \<and>
         check_and_add_overdue_interest today (snd (check_and_add_overdue_interest today w)) =
           (True, snd (check_and_add_overdue_interest today w))"
proof -
  let ?ls = "filter (\<lambda>r. status r \<noteq> Paid) (loans_new (store w))"
  obtain s' where run: "accrue_loans today ?ls w = (Inr (), w\<lparr>store := s'\<rparr>)"
    and acc: "list_all2 (accrued today (due_ids ?ls)) (loans_new (store w)) (loans_new s')"
    using accrue_loans_nofault[OF nf yr] by blast
  have first: "check_and_add_overdue_interest today w = (True, w\<lparr>store := s'\<rparr>)"
    using nf run by (simp add: check_and_add_overdue_interest_def execute_nofault select_loans_def)
  let ?w1 = "w\<lparr>store := s'\<rparr>"
  have nf1: "faults ?w1 = []" using nf by simp
  have ids1: "distinct (map loan_id (loans_new (store ?w1)))"
    using ids accrued_ids[OF acc] by simp
  have st1: "settled today (loans_new (store ?w1))"
    using accrued_settled[OF acc] by simp
  have "accrue_loans today (filter (\<lambda>r. status r \<noteq> Paid) (loans_new (store ?w1))) ?w1 = (Inr (), ?w1)"
    by (rule accrue_loans_settled[OF nf1 ids1 st1]) auto
  then have second: "check_and_add_overdue_interest today ?w1 = (True, ?w1)"
    using nf1 by (simp add: check_and_add_overdue_interest_def execute_nofault select_loans_def)
  show ?thesis using first second by simp
qed

lemma update_loan_statuses_succeeds:
  assumes nf: "faults w = []" and ids: "distinct (map loan_id (loans_new (store w)))"
  shows "fst (update_loan_statuses today w) = True"
proof (cases "\<exists>u. auth_session w = SignedIn u")
  case True
  then obtain u where "auth_session w = SignedIn u" ..
  from update_loan_statuses_nofault[OF nf this ids, of today] show ?thesis by auto
next
  case False
  then have "\<And>u. auth_session w \<noteq> SignedIn u" by blast
  from update_loan_statuses_no_user[OF nf this, of today] show ?thesis by auto
qed
section \<open>Principal floor\<close>

text \<open>
  Claim C7. \<open>current_principal \<ge> 0\<close> is an invariant of \<open>process_payment\<close>: if no
  loan row has a negative principal before the call, none has one after it, for every
  loan id, every payment amount (also one above the total owed), every session state
  and every pattern of failing requests. The only write to \<open>current_principal\<close> stores
  \<open>max(round(current_principal - remaining, 2), 0)\<close>.
\<close>

theorem process_payment_principal_nonneg:
  "principal_nonneg w \<Longrightarrow>
   principal_nonneg (snd (process_payment lid payment_amount pay_date w))"
  using preservesD[OF preserves_process_payment_try, of w lid payment_amount pay_date]
  by (auto simp: process_payment_def split: prod.splits sum.splits)

theorem process_payment_principal_nonneg_witness:
  "principal_nonneg example_world \<and>
   principal_nonneg (snd (process_payment 1 1000 example_day example_world))"
proof -
  have h: "principal_nonneg example_world"
    by (simp add: principal_nonneg_def example_world_def example_loan_def)
  show ?thesis
    using h process_payment_principal_nonneg[OF h, of 1 1000 example_day] by simp
qed

section \<open>Payment record\<close>

text \<open>
  Claim C1. The payment row should satisfy
  \<open>applied_to_interest + applied_to_principal + remaining_amount = amount\<close>, with
  \<open>remaining_amount = 0\<close> once the leftover has gone to the principal. The source
  copies the leftover into \<open>applied_to_principal\<close> and does not reset
  \<open>remaining_payment\<close> (the branches of the interest loop do reduce it), so the row
  stores the leftover twice. For a payment of 100 on a loan of 500 without unpaid
  interest the row holds amount 100, interest 0, principal 100 and remaining 100: the
  three parts add up to 200.
\<close>

theorem process_payment_records_leftover_twice:
  "map (\<lambda>p. (amount p, applied_to_interest p, applied_to_principal p, remaining_amount p))
     (payments_new (store (snd (process_payment 1 100 example_day example_world)))) =
   [(100, 0, 100, 100)]"
  by code_simp

section \<open>Status written by a payment\<close>

text \<open>
  Claim C4, as the source has it. When no request fails and the signed-in caller owns
  a loan with the given id, \<open>process_payment\<close> succeeds and overwrites the status of
  that loan: \<open>Paid\<close> exactly when the total owed, recomputed after the payment, is at
  most 0, and \<open>Active\<close> otherwise. All other rows keep their status. \<open>Active\<close> is a
  fourth value, outside \<open>Partial\<close>, \<open>Overdue\<close> and \<open>Paid\<close>.
\<close>

theorem process_payment_status:
  assumes nf: "faults w = []" and au: "auth_session w = SignedIn u"
    and ex: "filter (\<lambda>r. loan_id r = lid \<and> loan_user_id r = Some u) (loans_new (store w)) \<noteq> []"
  shows "fst (process_payment lid payment_amount pay_date w) = (True, ''Payment processed successfully'') \<and>
     map status (loans_new (store (snd (process_payment lid payment_amount pay_date w)))) =
     map (\<lambda>r. if loan_id r = lid \<and> loan_user_id r = Some u
               then (if fst (fst (calculate_total_owed lid
                        (snd (process_payment lid payment_amount pay_date w)))) \<le> 0
                     then Paid else Active)
               else status r) (loans_new (store w))"
proof -
  let ?P = "\<lambda>r. loan_id r = lid \<and> loan_user_id r = Some u"
  obtain loan rest where sel: "filter ?P (loans_new (store w)) = loan # rest"
    using ex by (cases "filter ?P (loans_new (store w))") auto
  obtain rem app s1 where pay:
    "pay_interest u (sort_key (\<lambda>r. date_key (due_date r))
       (filter (\<lambda>r. ie_loan_id r = lid \<and> ie_user_id r = Some u \<and> \<not> is_paid r \<and> 0 < interest_amount r)
          (loan_interest_history (store w)))) (round2 payment_amount) 0 w =
       (Inr (rem, app), w\<lparr>store := s1\<rparr>)"
    and l1: "loans_new s1 = loans_new (store w)"
    using pay_interest_nofault[OF nf] by blast
  define s2 where "s2 = (if 0 < rem
     then snd (update_loans ?P (\<lambda>r. r\<lparr>current_principal := max (round2 (current_principal loan - rem)) 0\<rparr>) s1)
     else s1)"
  define w3 where "w3 = w\<lparr>store := snd (insert_payment
                 \<lparr>pay_loan_id = lid, amount = payment_amount, payment_date = pay_date,
                  applied_to_interest = app,
                  applied_to_principal = (if 0 < rem then rem else 0),
                  remaining_amount = rem, pay_user_id = Some u\<rparr> s2)\<rparr>"
  define t where "t = fst (fst (calculate_total_owed lid w3))"
  define w4 where "w4 = w3\<lparr>store := snd (update_loans ?P
      (\<lambda>r. r\<lparr>status := (if t \<le> 0 then Paid else Active)\<rparr>) (store w3))\<rparr>"
  have run: "process_payment lid payment_amount pay_date w =
      ((True, ''Payment processed successfully''), w4)"
    using process_payment_run[OF nf au sel pay, where pay_date = pay_date]
    by (simp add: Let_def w4_def t_def w3_def s2_def)
  have nf3: "faults w3 = []" and au3: "auth_session w3 = SignedIn u"
    using nf au by (simp_all add: w3_def)
  have t4: "fst (fst (calculate_total_owed lid w4)) = t"
    unfolding w4_def t_def using total_owed_status_update[OF nf3 au3] by simp
  have st4: "map status (loans_new (store w4)) =
       map (\<lambda>r. if ?P r then (if t \<le> 0 then Paid else Active) else status r) (loans_new (store w))"
    by (auto simp: w4_def w3_def insert_payment_def update_loans_def s2_def l1)
  show ?thesis
    using run t4 st4 by simp
qed

theorem process_payment_status_witness:
  "faults example_world = [] \<and> auth_session example_world = SignedIn 7 \<and>
   fst (process_payment 1 1000 example_day example_world) =
     (True, ''Payment processed successfully'') \<and>
   map status (loans_new (store (snd (process_payment 1 1000 example_day example_world)))) = [Paid]"
proof -
  have h1: "faults example_world = []" and h2: "auth_session example_world = SignedIn 7"
    by (simp_all add: example_world_def)
  have h3: "filter (\<lambda>r. loan_id r = 1 \<and> loan_user_id r = Some 7)
              (loans_new (store example_world)) \<noteq> []"
    by (simp add: example_world_def example_loan_def)
  have t: "fst (fst (calculate_total_owed 1
             (snd (process_payment 1 1000 example_day example_world)))) = 0"
    by code_simp
  from process_payment_status[OF h1 h2 h3, of 1000 example_day] t h1 h2
  show ?thesis by (simp add: example_world_def example_loan_def)
qed

text \<open>
  The claim as stated said that only \<open>Partial\<close>, \<open>Overdue\<close> and \<open>Paid\<close> are
  written and that a loan still owing keeps its stored status. A payment of 100 on a
  loan of 500 stored as \<open>Partial\<close> leaves it \<open>Active\<close>.
\<close>

theorem process_payment_writes_active:
  "map status (loans_new (store example_world)) = [Partial] \<and>
   map status (loans_new (store (snd (process_payment 1 100 example_day example_world)))) =
     [Active] \<and>
   Active \<notin> {Partial, Overdue, Paid}"
  by code_simp

section \<open>Failures while computing the total owed\<close>

text \<open>
  Claim C10, as the source has it. \<open>calculate_total_owed\<close> raises nothing and
  leaves the tables as they are. It returns the default \<open>(0, 0, 0)\<close> whenever the loan
  read yields no row (no signed-in caller, no row of the caller with that id, or a
  failed request) and whenever the interest request fails. Only when both reads
  succeed is the result \<open>round(current_principal + unpaid_interest, 2)\<close> with its two
  parts.
\<close>

theorem calculate_total_owed_default:
  "store (snd (calculate_total_owed lid w)) = store w \<and>
   (fst (get_table_data_loans lid w) = [] \<longrightarrow> fst (calculate_total_owed lid w) = (0, 0, 0)) \<and>
   (\<forall>fs. faults w = True # fs \<longrightarrow> fst (calculate_total_owed lid w) = (0, 0, 0)) \<and>
   (\<forall>u fs loan rest. auth_session w = SignedIn u \<longrightarrow> faults w = False # True # fs \<longrightarrow>
        fst (calculate_total_owed lid w) = (0, 0, 0)) \<and>
   (\<forall>u loan rest. auth_session w = SignedIn u \<longrightarrow> faults w = [] \<longrightarrow>
        filter (\<lambda>r. loan_user_id r = Some u \<and> loan_id r = lid) (loans_new (store w)) = loan # rest \<longrightarrow>
        fst (calculate_total_owed lid w) =
          (round2 (current_principal loan + unpaid_interest (store w) lid),
           current_principal loan, unpaid_interest (store w) lid))"
proof (intro conjI allI impI)
  show "store (snd (calculate_total_owed lid w)) = store w"
    by (auto simp: calculate_total_owed_def get_table_data_loans_def get_current_user_id_def
          execute_def select_loans_def select_interest_def Let_def
          split: session.splits list.splits sum.splits prod.splits)
next
  assume "fst (get_table_data_loans lid w) = []"
  then show "fst (calculate_total_owed lid w) = (0, 0, 0)"
    by (cases "get_table_data_loans lid w") (simp add: calculate_total_owed_def)
next
  fix fs assume "faults w = True # fs"
  then show "fst (calculate_total_owed lid w) = (0, 0, 0)"
    by (cases "auth_session w")
       (simp_all add: calculate_total_owed_def get_table_data_loans_def get_current_user_id_def
          execute_def)
next
  fix u fs assume "auth_session w = SignedIn u" "faults w = False # True # fs"
  then show "fst (calculate_total_owed lid w) = (0, 0, 0)"
    by (simp add: calculate_total_owed_def get_table_data_loans_def get_current_user_id_def
          execute_def select_loans_def split: list.splits)
next
  fix u loan rest
  assume "auth_session w = SignedIn u" "faults w = []"
    "filter (\<lambda>r. loan_user_id r = Some u \<and> loan_id r = lid) (loans_new (store w)) = loan # rest"
  then show "fst (calculate_total_owed lid w) =
          (round2 (current_principal loan + unpaid_interest (store w) lid),
           current_principal loan, unpaid_interest (store w) lid)"
    by (simp add: calculate_total_owed_nofault)
qed

theorem calculate_total_owed_default_witness:
  "fst (calculate_total_owed 1 example_world) = (500, 500, 0) \<and>
   store (snd (calculate_total_owed 1 example_world)) = store example_world"
proof -
  have h1: "faults example_world = []" and h2: "auth_session example_world = SignedIn 7"
    by (simp_all add: example_world_def)
  have h3: "filter (\<lambda>r. loan_user_id r = Some 7 \<and> loan_id r = 1)
              (loans_new (store example_world)) = example_loan # []"
    by (simp add: example_world_def example_loan_def)
  have u: "unpaid_interest (store example_world) 1 = 0"
    by (simp add: unpaid_interest_def example_world_def)
  have r: "round2 500 = 500"
    by (simp add: round2_def round_half_even_def)
  from calculate_total_owed_default[of 1 example_world] h1 h2 h3
  have "fst (calculate_total_owed 1 example_world) =
          (round2 (current_principal example_loan + unpaid_interest (store example_world) 1),
           current_principal example_loan, unpaid_interest (store example_world) 1)"
    and "store (snd (calculate_total_owed 1 example_world)) = store example_world"
    by blast+
  then show ?thesis using u r by (simp add: example_loan_def)
qed

text \<open>
  The claim as stated said that a failure is surfaced and never becomes a zero total,
  so that no loan is marked \<open>Paid\<close> by a failure. With a failing loan request the
  result is \<open>(0, 0, 0)\<close> for a loan of 500; a payment of 100 whose fifth request (the
  loan read of the total) fails marks the loan \<open>Paid\<close> with 400 outstanding; and a
  status refresh without a signed-in caller marks the loan \<open>Paid\<close> with 500
  outstanding.
\<close>

theorem calculate_total_owed_swallows_failure:
  "fst (calculate_total_owed 1 (example_world\<lparr>faults := [True]\<rparr>)) = (0, 0, 0) \<and>
   map (\<lambda>r. (current_principal r, status r))
     (loans_new (store (snd (process_payment 1 100 example_day
        (example_world\<lparr>faults := [False, False, False, False, True]\<rparr>))))) = [(400, Paid)] \<and>
   map (\<lambda>r. (current_principal r, status r))
     (loans_new (store (snd (update_loan_statuses example_day
        (example_world\<lparr>auth_session := NoKey\<rparr>))))) = [(500, Paid)]"
  by code_simp

section \<open>Status written by the accrual pass\<close>

text \<open>
  Claim C6. The accrual pass should mark a loan \<open>Overdue\<close> only when the walk
  advanced, that is when today is after its due date; \<open>update_loan_statuses\<close>
  guards \<open>Overdue\<close> by that test. The write after the loop of
  \<open>check_and_add_overdue_interest\<close> has no guard: a loan due on 30 June 2024 and stored
  as \<open>Partial\<close> is \<open>Overdue\<close> after the pass of 1 June 2024, with its due date
  unchanged.
\<close>

theorem accrual_marks_future_loan_overdue:
  "map (\<lambda>r. (current_due_date r, status r)) (loans_new (store example_world)) =
     [(Some \<lparr>year = 2024, month = 6, day = 30\<rparr>, Partial)] \<and>
   map (\<lambda>r. (current_due_date r, status r))
     (loans_new (store (snd (check_and_add_overdue_interest example_day example_world)))) =
     [(Some \<lparr>year = 2024, month = 6, day = 30\<rparr>, Overdue)]"
  by code_simp

section \<open>Owner scoping of accrual and refresh\<close>

text \<open>
  Claim C9. Accrual and status refresh should touch only rows of the calling owner;
  \<open>process_payment\<close> and \<open>get_table_data\<close> add the filter on \<open>user_id\<close> to every
  request. The requests of \<open>check_and_add_overdue_interest\<close> and of the loop of
  \<open>update_loan_statuses\<close> carry no owner filter. Run by owner 1 on 15 March 2024, the
  accrual pass moves the due date of the loan of owner 2 to 10 April, marks it
  \<open>Overdue\<close> and inserts an interest row for it without owner; the refresh then marks it
  \<open>Paid\<close>, because the total owed is read with the filter of owner 1.
\<close>

theorem refresh_changes_other_owner:
  "filter (\<lambda>r. loan_user_id r = Some 2)
     (loans_new (store (snd (check_and_add_overdue_interest march_15 two_owner_world)))) =
     [\<lparr>loan_id = 2, loan_user_id = Some 2, current_principal = 300,
       current_due_date = Some \<lparr>year = 2024, month = 4, day = 10\<rparr>, status = Overdue\<rparr>] \<and>
   map (\<lambda>e. (ie_user_id e, due_date e, interest_amount e))
     (filter (\<lambda>e. ie_loan_id e = 2)
        (loan_interest_history
           (store (snd (check_and_add_overdue_interest march_15 two_owner_world))))) =
     [(Some 2, \<lparr>year = 2024, month = 2, day = 10\<rparr>, 120),
      (None, \<lparr>year = 2024, month = 3, day = 10\<rparr>, 120)] \<and>
   filter (\<lambda>r. loan_user_id r = Some 2)
     (loans_new (store (snd (update_loan_statuses march_15 two_owner_world)))) =
     [\<lparr>loan_id = 2, loan_user_id = Some 2, current_principal = 300,
       current_due_date = Some \<lparr>year = 2024, month = 4, day = 10\<rparr>, status = Paid\<rparr>]"
  by code_simp

section \<open>Advancing the due date\<close>

text \<open>
  Claim C8. Repeated advancement should not drift: a due date on the 31st should come
  back to the 31st (or the last day) in every month that is long enough, as the rules
  shown by the application say (\<open>every following month on the same day\<close>). The
  accrual loop advances from the date the previous advance produced, and
  \<open>original_due_date\<close> is stored but never read. For a loan due on 31 January 2023, the
  accrual pass of 15 April 2023 inserts the rows due on 31 January, 28 February and
  28 March and stores 28 April as the next due date, although March has 31 days and April
  has 30; twelve advances from 31 January 2023 give 28 January 2024.
\<close>

theorem accrual_due_day_drifts:
  "map due_date (loan_interest_history
     (store (snd (check_and_add_overdue_interest april_15 month_end_world)))) =
     [\<lparr>year = 2023, month = 1, day = 31\<rparr>, \<lparr>year = 2023, month = 2, day = 28\<rparr>,
      \<lparr>year = 2023, month = 3, day = 28\<rparr>] \<and>
   map current_due_date
     (loans_new (store (snd (check_and_add_overdue_interest april_15 month_end_world)))) =
     [Some \<lparr>year = 2023, month = 4, day = 28\<rparr>] \<and>
   days_in_month 2023 3 = 31 \<and> days_in_month 2023 4 = 30 \<and>
   advance 12 \<lparr>year = 2023, month = 1, day = 31\<rparr> = Some \<lparr>year = 2024, month = 1, day = 28\<rparr>"
  by code_simp

text \<open>
  One advance alone does what \<open>relativedelta(months=1)\<close> promises: from a valid date
  before the last year it moves to the next calendar month and keeps the day of the
  month, cut down to the length of the target month. A day of at most 28 is never cut,
  and no advance ever raises the day.
\<close>

lemma add_month_clamps:
  assumes "valid_date d" and "year d < MAXYEAR"
  shows "(\<exists>d'. add_month d = Some d' \<and> valid_date d' \<and>
            (year d', month d') =
              (if month d = 12 then (year d + 1, 1) else (year d, month d + 1)) \<and>
            day d' = min (day d) (days_in_month (year d') (month d'))) \<and>
         (day d \<le> 28 \<longrightarrow> advance 12 d = Some (d\<lparr>year := year d + 1\<rparr>)) \<and>
         (\<forall>n d'. advance n d = Some d' \<longrightarrow> day d' \<le> day d)"
proof (intro conjI impI allI)
  show "\<exists>d'. add_month d = Some d' \<and> valid_date d' \<and>
            (year d', month d') =
              (if month d = 12 then (year d + 1, 1) else (year d, month d + 1)) \<and>
            day d' = min (day d) (days_in_month (year d') (month d'))"
    by (rule add_month_valid[OF assms])
next
  assume "day d \<le> 28"
  then show "advance 12 d = Some (d\<lparr>year := year d + 1\<rparr>)"
    by (rule advance_12_small_day[OF assms])
next
  fix n d' assume "advance n d = Some d'"
  then show "day d' \<le> day d" by (rule advance_day_le)
qed

section \<open>Waterfall order\<close>




text \<open>
  Rows inserted by the accrual pass carry no \<open>user_id\<close>, so the read of
  \<open>process_payment\<close> does not return them. After the accrual pass of 15 March 2024 the
  loan of owner 1 has the unpaid rows of February (recorded under owner 1) and of March
  (inserted by the pass); a payment of 300 settles the February row, leaves the March
  row unpaid at 200 and takes 100 off the principal.
\<close>

lemma payment_skips_accrued_row:
  "map (\<lambda>e. (ie_user_id e, due_date e, interest_amount e, is_paid e))
     (filter (\<lambda>e. ie_loan_id e = 1)
        (loan_interest_history
           (store (snd (process_payment 1 300 march_15
              (snd (check_and_add_overdue_interest march_15 two_owner_world))))))) =
     [(Some 1, \<lparr>year = 2024, month = 2, day = 10\<rparr>, 200, True),
      (None, \<lparr>year = 2024, month = 3, day = 10\<rparr>, 200, False)] \<and>
   map (\<lambda>p. (applied_to_interest p, applied_to_principal p))
     (payments_new
        (store (snd (process_payment 1 300 march_15
           (snd (check_and_add_overdue_interest march_15 two_owner_world)))))) =
     [(200, 100)] \<and>
   map current_principal
     (filter (\<lambda>r. loan_id r = 1)
        (loans_new
           (store (snd (process_payment 1 300 march_15
              (snd (check_and_add_overdue_interest march_15 two_owner_world))))))) = [400]"
  by code_simp

section \<open>Status rule of the refresh\<close>

text \<open>
  Claim C3. The refresh should give every loan the status that follows from its total
  owed: \<open>Paid\<close> only when principal plus unpaid interest is at most 0. The loop of
  \<open>update_loan_statuses\<close> visits every row of \<open>loans_new\<close>, but
  \<open>calculate_total_owed\<close> reads the loan with the filter of the caller and returns
  \<open>(0, 0, 0)\<close> for a row it does not find. Run by owner 1 on 15 March 2024, the refresh
  leaves the loan of owner 1 \<open>Partial\<close> with 900 owed and marks the loan of owner 2
  \<open>Paid\<close> with 540 owed; run without a signed-in caller, as the call at the start of
  the script is before anyone signs in, it marks both loans \<open>Paid\<close>.
\<close>

theorem refresh_marks_owing_loans_paid:
  "map (\<lambda>r. (loan_id r,
              current_principal r +
                unpaid_interest (store (snd (update_loan_statuses march_15 two_owner_world)))
                  (loan_id r),
              status r))
     (loans_new (store (snd (update_loan_statuses march_15 two_owner_world)))) =
     [(1, 900, Partial), (2, 540, Paid)] \<and>
   map (\<lambda>r. (loan_id r,
              current_principal r +
                unpaid_interest
                  (store (snd (update_loan_statuses march_15
                     (two_owner_world\<lparr>auth_session := NoKey\<rparr>))))
                  (loan_id r),
              status r))
     (loans_new (store (snd (update_loan_statuses march_15
        (two_owner_world\<lparr>auth_session := NoKey\<rparr>))))) =
     [(1, 900, Paid), (2, 540, Paid)]"
  by code_simp

text \<open>
  For the rows of the signed-in caller the loop applies the rule to the values stored
  after the accrual pass that the function runs first: when no request fails and loan
  ids are unique, \<open>update_loan_statuses\<close> succeeds, \<open>calculate_total_owed\<close> yields
  for such a row \<open>round(current_principal + unpaid_interest, 2)\<close>, and the status is
  \<open>Paid\<close> when that total is at most 0, \<open>Overdue\<close> when it is positive and today is
  strictly after \<open>current_due_date\<close>, and \<open>Partial\<close> otherwise.
\<close>

lemma update_loan_statuses_rule:
  assumes nf: "faults w = []" and au: "auth_session w = SignedIn u"
    and ids: "distinct (map loan_id (loans_new (store w)))"
  shows "fst (update_loan_statuses today w) = True \<and>
    (\<forall>l \<in> set (loans_new (store (snd (update_loan_statuses today w)))).
       loan_user_id l = Some u \<longrightarrow>
       fst (calculate_total_owed (loan_id l) (snd (update_loan_statuses today w))) =
         (round2 (current_principal l +
                  unpaid_interest (store (snd (update_loan_statuses today w))) (loan_id l)),
          current_principal l,
          unpaid_interest (store (snd (update_loan_statuses today w))) (loan_id l)) \<and>
       (round2 (current_principal l +
                unpaid_interest (store (snd (update_loan_statuses today w))) (loan_id l)) \<le> 0 \<longrightarrow>
          status l = Paid) \<and>
       (0 < round2 (current_principal l +
                unpaid_interest (store (snd (update_loan_statuses today w))) (loan_id l)) \<longrightarrow>
          (\<forall>due. current_due_date l = Some due \<longrightarrow>
             (date_less due today \<longrightarrow> status l = Overdue) \<and>
             (\<not> date_less due today \<longrightarrow> status l = Partial))))"
proof -
  obtain w0 where nf0: "faults w0 = []" and au0: "auth_session w0 = SignedIn u"
    and ids0: "distinct (map loan_id (loans_new (store w0)))"
    and run: "update_loan_statuses today w =
       (True, w0\<lparr>store := (store w0)\<lparr>loans_new :=
                 map (resolved today (store w0) u) (loans_new (store w0))\<rparr>\<rparr>)"
    using update_loan_statuses_nofault[OF nf au ids] by blast
  define wf where "wf = w0\<lparr>store := (store w0)\<lparr>loans_new :=
                 map (resolved today (store w0) u) (loans_new (store w0))\<rparr>\<rparr>"
  have snd_run: "snd (update_loan_statuses today w) = wf" and fst_run: "fst (update_loan_statuses today w) = True"
    using run by (simp_all add: wf_def)
  have nff: "faults wf = []" and auf: "auth_session wf = SignedIn u"
    using nf0 au0 by (simp_all add: wf_def)
  have loansf: "loans_new (store wf) = map (resolved today (store w0) u) (loans_new (store w0))"
    by (simp add: wf_def)
  have idsf: "distinct (map loan_id (loans_new (store wf)))"
    using ids0 by (simp add: loansf comp_def)
  have unp: "unpaid_interest (store wf) i = unpaid_interest (store w0) i" for i
    by (simp add: wf_def unpaid_interest_def)
  have main: "fst (calculate_total_owed (loan_id l) wf) =
         (round2 (current_principal l + unpaid_interest (store wf) (loan_id l)),
          current_principal l, unpaid_interest (store wf) (loan_id l)) \<and>
       status l = derive_status today
          (round2 (current_principal l + unpaid_interest (store wf) (loan_id l)))
          (current_due_date l)"
    if l: "l \<in> set (loans_new (store wf))" and own: "loan_user_id l = Some u" for l
  proof -
    from l obtain r where r: "r \<in> set (loans_new (store w0))"
      and lr: "l = resolved today (store w0) u r"
      unfolding loansf by auto
    have ownr: "loan_user_id r = Some u" using own lr by simp
    have "filter (\<lambda>x. loan_user_id x = Some u \<and> loan_id x = loan_id l) (loans_new (store wf)) = [l]"
      by (rule filter_owner_distinct[OF idsf l own])
    then have c: "fst (calculate_total_owed (loan_id l) wf) =
         (round2 (current_principal l + unpaid_interest (store wf) (loan_id l)),
          current_principal l, unpaid_interest (store wf) (loan_id l))"
      by (simp add: calculate_total_owed_nofault[OF nff auf])
    have "filter (\<lambda>x. loan_user_id x = Some u \<and> loan_id x = loan_id r) (loans_new (store w0)) = [r]"
      by (rule filter_owner_distinct[OF ids0 r ownr])
    then have "total_owed_of (store w0) u (loan_id r) =
        round2 (current_principal r + unpaid_interest (store w0) (loan_id r))"
      by (simp add: total_owed_of_def)
    then have "status l = derive_status today
          (round2 (current_principal l + unpaid_interest (store wf) (loan_id l)))
          (current_due_date l)"
      by (simp add: lr unp)
    with c show ?thesis by simp
  qed
  show ?thesis
    unfolding snd_run fst_run
    using main by (auto simp: derive_status_def)
qed

section \<open>Idempotence of accrual and refresh\<close>

text \<open>
  Claim C5, as the source has it. With unique loan ids, no failing request and today
  before the last year, the accrual pass succeeds, and a second pass on the same day
  succeeds and leaves the whole state as the first pass left it: no interest row is
  added, and due dates and statuses are the same. Under the same conditions
  \<open>update_loan_statuses\<close> succeeds, and when every loan stored as \<open>Paid\<close> has a
  total owed of at most 0, as \<open>calculate_total_owed\<close> returns it to the caller, a
  second refresh on the same day succeeds and leaves the whole state as the first
  refresh left it.
\<close>

theorem refresh_idempotent:
  assumes nf: "faults w = []" and ids: "distinct (map loan_id (loans_new (store w)))"
    and yr: "year today < MAXYEAR"
  shows "fst (check_and_add_overdue_interest today w) = True \<and>
         check_and_add_overdue_interest today (snd (check_and_add_overdue_interest today w)) =
           (True, snd (check_and_add_overdue_interest today w)) \<and>
         fst (update_loan_statuses today w) = True \<and>
         ((\<forall>r \<in> set (loans_new (store w)).
             status r = Paid \<longrightarrow> fst (fst (calculate_total_owed (loan_id r) w)) \<le> 0) \<longrightarrow>
          update_loan_statuses today (snd (update_loan_statuses today w)) =
            (True, snd (update_loan_statuses today w)))"
proof (intro conjI impI)
  show "fst (check_and_add_overdue_interest today w) = True"
    by (rule conjunct1[OF check_and_add_twice[OF nf ids yr]])
  show "check_and_add_overdue_interest today (snd (check_and_add_overdue_interest today w)) =
           (True, snd (check_and_add_overdue_interest today w))"
    by (rule conjunct2[OF check_and_add_twice[OF nf ids yr]])
  show "fst (update_loan_statuses today w) = True"
    by (rule update_loan_statuses_succeeds[OF nf ids])
next
  assume H: "\<forall>r \<in> set (loans_new (store w)).
             status r = Paid \<longrightarrow> fst (fst (calculate_total_owed (loan_id r) w)) \<le> 0"
  show "update_loan_statuses today (snd (update_loan_statuses today w)) =
            (True, snd (update_loan_statuses today w))"
  proof (cases "\<exists>u. auth_session w = SignedIn u")
    case True
    then obtain u where au: "auth_session w = SignedIn u" ..
    have tot: "fst (fst (calculate_total_owed lid w)) = total_owed_of (store w) u lid" for lid
      using total_owed_nofault[OF nf au, of lid] by (metis fst_conv)
    have "\<forall>r \<in> set (loans_new (store w)). status r = Paid \<longrightarrow>
              total_owed_of (store w) u (loan_id r) \<le> 0"
    proof (intro ballI impI)
      fix r assume "r \<in> set (loans_new (store w))" "status r = Paid"
      with H have "fst (fst (calculate_total_owed (loan_id r) w)) \<le> 0" by blast
      then show "total_owed_of (store w) u (loan_id r) \<le> 0" unfolding tot .
    qed
    then show ?thesis by (rule refresh_twice[OF nf au ids yr])
  next
    case False
    then have "\<And>u. auth_session w \<noteq> SignedIn u" by blast
    then show ?thesis by (rule refresh_twice_no_user[OF nf])
  qed
qed

theorem refresh_idempotent_witness:
  "faults paid_off_world = [] \<and>
   distinct (map loan_id (loans_new (store paid_off_world))) \<and>
   year march_15 < MAXYEAR \<and>
   map (\<lambda>r. (status r, fst (fst (calculate_total_owed (loan_id r) paid_off_world))))
     (loans_new (store paid_off_world)) = [(Partial, 700), (Paid, 0)] \<and>
   length (loan_interest_history (store paid_off_world)) = 2 \<and>
   length (loan_interest_history
     (store (snd (update_loan_statuses march_15 paid_off_world)))) = 3 \<and>
   check_and_add_overdue_interest march_15
     (snd (check_and_add_overdue_interest march_15 paid_off_world)) =
     (True, snd (check_and_add_overdue_interest march_15 paid_off_world)) \<and>
   update_loan_statuses march_15 (snd (update_loan_statuses march_15 paid_off_world)) =
     (True, snd (update_loan_statuses march_15 paid_off_world))"
proof -
  have nf: "faults paid_off_world = []"
    and ids: "distinct (map loan_id (loans_new (store paid_off_world)))"
    and l0: "length (loan_interest_history (store paid_off_world)) = 2"
    by (simp_all add: paid_off_world_def)
  have yr: "year march_15 < MAXYEAR" by (simp add: march_15_def MAXYEAR_def)
  have tots: "map (\<lambda>r. (status r, fst (fst (calculate_total_owed (loan_id r) paid_off_world))))
     (loans_new (store paid_off_world)) = [(Partial, 700), (Paid, 0)]"
    by code_simp
  have H: "\<forall>r \<in> set (loans_new (store paid_off_world)).
             status r = Paid \<longrightarrow> fst (fst (calculate_total_owed (loan_id r) paid_off_world)) \<le> 0"
    by code_simp
  have l1: "length (loan_interest_history
     (store (snd (update_loan_statuses march_15 paid_off_world)))) = 3"
    by code_simp
  note inst = refresh_idempotent[OF nf ids yr]
  from inst have a: "check_and_add_overdue_interest march_15
     (snd (check_and_add_overdue_interest march_15 paid_off_world)) =
     (True, snd (check_and_add_overdue_interest march_15 paid_off_world))" by blast
  from inst H have b: "update_loan_statuses march_15 (snd (update_loan_statuses march_15 paid_off_world)) =
     (True, snd (update_loan_statuses march_15 paid_off_world))" by blast
  from nf ids yr tots l0 l1 a b show ?thesis by blast
qed

text \<open>
  The claim as stated holds for no such condition. The accrual pass skips a loan stored
  as \<open>Paid\<close>, and the loop of the refresh derives the status from the total owed
  afterwards. A loan stored as \<open>Paid\<close> that owes 500 and was due on 10 February 2024
  gets no interest row from the first refresh of 15 March 2024, which marks it
  \<open>Overdue\<close>; the second refresh inserts the rows of February and March, moves the due
  date to 10 April and marks it \<open>Partial\<close>.
\<close>

theorem refresh_twice_paid_owing:
  "map loan_id (loans_new (store paid_owing_world)) = [1] \<and>
   map status (loans_new (store paid_owing_world)) = [Paid] \<and>
   fst (fst (calculate_total_owed 1 paid_owing_world)) = 500 \<and>
   loans_new (store (snd (update_loan_statuses march_15 paid_owing_world))) =
     [\<lparr>loan_id = 1, loan_user_id = Some 1, current_principal = 500,
       current_due_date = Some \<lparr>year = 2024, month = 2, day = 10\<rparr>, status = Overdue\<rparr>] \<and>
   loan_interest_history (store (snd (update_loan_statuses march_15 paid_owing_world))) = [] \<and>
   loans_new (store (snd (update_loan_statuses march_15
       (snd (update_loan_statuses march_15 paid_owing_world))))) =
     [\<lparr>loan_id = 1, loan_user_id = Some 1, current_principal = 500,
       current_due_date = Some \<lparr>year = 2024, month = 4, day = 10\<rparr>, status = Partial\<rparr>] \<and>
   map due_date
     (loan_interest_history (store (snd (update_loan_statuses march_15
       (snd (update_loan_statuses march_15 paid_owing_world)))))) =
     [\<lparr>year = 2024, month = 2, day = 10\<rparr>, \<lparr>year = 2024, month = 3, day = 10\<rparr>] \<and>
   map interest_amount
     (loan_interest_history (store (snd (update_loan_statuses march_15
       (snd (update_loan_statuses march_15 paid_owing_world)))))) = [200, 200]"
  by code_simp
end
